theory Spec2Isabelle
  imports Main "HOL-Library.Word" "HOL-Library.Char_ord"
begin

unbundle bit_operations_syntax

section \<open>Assembler: the file stack (src/src/asm/fstack.c)\<close>

text \<open>
  The file stack keeps its state in file-level globals.  They are gathered in one record
  that every routine takes and returns.  \<open>unsigned int\<close> and \<open>uint32_t\<close> are 32-bit
  words, so \<open>++\<close> wraps as it does in C.  Pointers into storage owned by other modules
  (macro arguments, the macro symbol) are opaque handles.

  What the routines read from other modules is part of the record as well:
  \<open>lexer_LineNo\<close> is what \<open>lexer_GetLineNo()\<close> returns, \<open>macro_Args\<close> and
  \<open>macro_UniqueID\<close> are what \<open>macro_GetCurrentArgs()\<close> and \<open>macro_GetUniqueID()\<close>
  return (\<open>macro_SetUniqueID\<close> writes the latter), \<open>tzNewMacro\<close> and \<open>ulNewMacroSize\<close>
  are the capture buffer of the lexer, and \<open>malloc_ok\<close> tells whether the next
  \<open>malloc\<close> of a context frame succeeds.
\<close>

type_synonym handle = nat

definition STAT_isInclude :: "32 word" where "STAT_isInclude = 0"
definition STAT_isMacro :: "32 word" where "STAT_isMacro = 1"
definition STAT_isMacroArg :: "32 word" where "STAT_isMacroArg = 2"
definition STAT_isREPTBlock :: "32 word" where "STAT_isREPTBlock = 3"

text \<open>
  A frame of \<open>struct sContext\<close>.  \<open>pushcontext\<close> fills in only the members that belong to
  the saved status; the others stay as \<open>malloc\<close> left them, so the saved members are a
  variant.
\<close>

datatype saved =
    SavedInclude
  | SavedMacro handle "handle option"
  | SavedRept handle string "32 word" "32 word" "32 word" "32 word"

record sContext =
  nLine :: "32 word"
  nStatus :: "32 word"
  members :: saved
  uniqueID :: "32 word"

record fstack =
  pFileStack :: "sContext list"
  nFileStackDepth :: "32 word"
  nMaxRecursionDepth :: "32 word"
  pCurrentMacro :: "handle option"
  nCurrentStatus :: "32 word"
  IncludePaths :: "string list"
  nMacroCount :: "32 word"
  pCurrentREPTBlock :: string
  nCurrentREPTBlockSize :: "32 word"
  nCurrentREPTBlockCount :: "32 word"
  nCurrentREPTBodyFirstLine :: "32 word"
  nCurrentREPTBodyLastLine :: "32 word"
  lexer_LineNo :: "32 word"
  macro_Args :: handle
  macro_UniqueID :: "32 word"
  tzNewMacro :: string
  ulNewMacroSize :: "32 word"
  malloc_ok :: bool

text \<open>\<open>fatalerror\<close> ends the process: a fatal error is a result, and no state follows it.\<close>

datatype fatal =
    RecursionLimitExceeded "32 word"
  | NoMemoryForContext
  | InternalError
  | TooManyIncludeDirs
  | IncludePathTooLong string
  | FailedToOpenInclude

text \<open>
  \<open>pushcontext\<close>: the depth counter is incremented before it is compared with the limit;
  the new frame is appended at the end of the list (the loop over \<open>next\<close> finds the last
  link).
\<close>

definition pushcontext :: "fstack \<Rightarrow> fatal + fstack" where
  "pushcontext s =
     (let depth = nFileStackDepth s + 1 in
      if depth > nMaxRecursionDepth s then Inl (RecursionLimitExceeded (nMaxRecursionDepth s))
      else if \<not> malloc_ok s then Inl NoMemoryForContext
      else
        let st = nCurrentStatus s;
            frame = \<lambda>m. \<lparr>nLine = lexer_LineNo s, nStatus = st, members = m,
                          uniqueID = macro_UniqueID s\<rparr>;
            push = \<lambda>m. Inr (s\<lparr>nFileStackDepth := depth,
                                pFileStack := pFileStack s @ [frame m]\<rparr>)
        in if st = STAT_isMacroArg \<or> st = STAT_isMacro
             then push (SavedMacro (macro_Args s) (pCurrentMacro s))
           else if st = STAT_isInclude then push SavedInclude
           else if st = STAT_isREPTBlock
             then push (SavedRept (macro_Args s) (pCurrentREPTBlock s)
                          (nCurrentREPTBlockSize s) (nCurrentREPTBlockCount s)
                          (nCurrentREPTBodyFirstLine s) (nCurrentREPTBodyLastLine s))
           else Inl InternalError)"

text \<open>\<open>fstk_RunRept\<close>: nothing at all happens for a count of zero.\<close>

definition fstk_RunRept :: "32 word \<Rightarrow> 32 word \<Rightarrow> fstack \<Rightarrow> fatal + fstack" where
  "fstk_RunRept count nReptLineNo s =
     (if count \<noteq> 0 then
        (case pushcontext s of
           Inl e \<Rightarrow> Inl e
         | Inr s1 \<Rightarrow>
             Inr (s1\<lparr>macro_UniqueID := nMacroCount s1,
                     nMacroCount := nMacroCount s1 + 1,
                     nCurrentREPTBlockCount := count,
                     nCurrentStatus := STAT_isREPTBlock,
                     nCurrentREPTBlockSize := ulNewMacroSize s1,
                     pCurrentREPTBlock := tzNewMacro s1,
                     nCurrentREPTBodyFirstLine := nReptLineNo + 1\<rparr>))
      else Inr s)"

text \<open>
  The grammar action of \<open>REPT\<close> (rule \<open>rept\<close>): the block is run only when its capture
  reached \<open>ENDR\<close>.
\<close>

definition rept :: "bool \<Rightarrow> 32 word \<Rightarrow> 32 word \<Rightarrow> fstack \<Rightarrow> fatal + fstack" where
  "rept captured count lineNo s = (if captured then fstk_RunRept count lineNo s else Inr s)"

text \<open>
  File-level objects have static storage, so they start zeroed; \<open>fstk_Init\<close> then sets
  the stack, the depth, the macro counter and the status.  The recursion limit and the
  lexer's values come from other modules and are arguments here.  (The \<open>__FILE__\<close>
  symbol that \<open>fstk_Init\<close> also defines lives in the symbol table, not in this state.)
\<close>

definition zeroed :: fstack where
  "zeroed = \<lparr>pFileStack = [], nFileStackDepth = 0, nMaxRecursionDepth = 0,
     pCurrentMacro = None, nCurrentStatus = 0, IncludePaths = [], nMacroCount = 0,
     pCurrentREPTBlock = [], nCurrentREPTBlockSize = 0, nCurrentREPTBlockCount = 0,
     nCurrentREPTBodyFirstLine = 0, nCurrentREPTBodyLastLine = 0, lexer_LineNo = 0,
     macro_Args = 0, macro_UniqueID = 0, tzNewMacro = [], ulNewMacroSize = 0,
     malloc_ok = True\<rparr>"

definition fstk_Init :: "fstack \<Rightarrow> fstack" where
  "fstk_Init s = s\<lparr>pFileStack := [], nFileStackDepth := 0, nMacroCount := 0,
                    nCurrentStatus := STAT_isInclude\<rparr>"

subsection \<open>Include paths\<close>

text \<open>
  \<open>fstk_AddIncludePath\<close> stores the directory at index \<open>NextIncPath\<close> and increments
  it, so the table is the list of the directories in the order they were added and
  \<open>NextIncPath\<close> is its length.  A directory that does not end in a slash gets one.
  \<open>MAXINCPATHS\<close> and \<open>_MAX_PATH\<close> are constants of headers and arguments here.
\<close>

definition fstk_AddIncludePath :: "nat \<Rightarrow> nat \<Rightarrow> string \<Rightarrow> fstack \<Rightarrow> fatal + fstack" where
  "fstk_AddIncludePath MAXINCPATHS MAX_PATH p s =
     (if length (IncludePaths s) = MAXINCPATHS then Inl TooManyIncludeDirs
      else
        let entry = (if p \<noteq> [] \<and> last p = CHR ''/'' then p else p @ ''/'')
        in if length entry \<ge> MAX_PATH then Inl (IncludePathTooLong p)
           else Inr (s\<lparr>IncludePaths := IncludePaths s @ [entry]\<rparr>))"

text \<open>
  The world outside the assembler: \<open>stat_dir p\<close> is \<open>None\<close> when \<open>stat\<close> fails on
  \<open>p\<close>, and otherwise tells whether \<open>p\<close> is a directory; \<open>realloc_ok n\<close> tells whether
  a buffer of \<open>n\<close> bytes can be had; the rest are the options of the dependency file.
\<close>

record sysenv =
  stat_dir :: "string \<Rightarrow> bool option"
  realloc_ok :: "nat \<Rightarrow> bool"
  dependfile :: bool
  tzTargetFileName :: string
  oGeneratePhonyDeps :: bool
  oGeneratedMissingIncludes :: bool

definition isPathValid :: "sysenv \<Rightarrow> string \<Rightarrow> bool" where
  "isPathValid env pathname =
     (case stat_dir env pathname of None \<Rightarrow> False | Some isdir \<Rightarrow> \<not> isdir)"

definition printdep :: "sysenv \<Rightarrow> string \<Rightarrow> string list" where
  "printdep env fileName =
     (if dependfile env then
        (tzTargetFileName env @ '': '' @ fileName) #
        (if oGeneratePhonyDeps env then [fileName @ '':''] else [])
      else [])"

datatype errno_value = ENOENT

datatype diagnostic =
    ReallocError
  | UnableToOpenIncluded string errno_value
  | MacroNotDefined string
  | NotAMacro string

record found_file =
  found :: bool
  fullPath :: "string option"
  bufSize :: nat
  errno :: "errno_value option"
  errors :: "diagnostic list"
  depLines :: "string list"

text \<open>
  The loop of \<open>fstk_FindFile\<close> over \<open>i = 0 .. NextIncPath\<close>, as a recursion over the
  prefixes still to try: the empty prefix for \<open>i = 0\<close>, then the table.  It yields
  whether a file was found, the buffer (\<open>None\<close> is \<open>NULL\<close>), its size and whether
  \<open>realloc\<close> failed.  (\<open>snprintf\<close> of two strings fails only beyond \<open>INT_MAX\<close>
  characters; that branch is left out.)
\<close>

fun try_paths ::
  "sysenv \<Rightarrow> string \<Rightarrow> string list \<Rightarrow> string option \<Rightarrow> nat
     \<Rightarrow> bool \<times> string option \<times> nat \<times> bool" where
  "try_paths env path [] buf sz = (False, buf, sz, False)"
| "try_paths env path (incPath # rest) buf sz =
     (let len = length incPath + length path;
          grow = (len \<ge> sz);
          size' = (if grow then len + 1 else sz)
      in if grow \<and> \<not> realloc_ok env size' then (False, None, size', True)
         else if isPathValid env (incPath @ path)
           then (True, Some (incPath @ path), size', False)
         else try_paths env path rest (Some (incPath @ path)) size')"

definition fstk_FindFile ::
  "sysenv \<Rightarrow> fstack \<Rightarrow> string \<Rightarrow> string option \<Rightarrow> nat \<Rightarrow> found_file" where
  "fstk_FindFile env s path fullPath0 size0 =
     (let fresh = (size0 = 0);
          size1 = (if fresh then 64 else size0);
          buf1 = (if fresh then (if realloc_ok env 64 then Some [] else None) else fullPath0);
          errs1 = (if fresh \<and> buf1 = None then [ReallocError] else []);
          (ok, buf2, size2, failed) =
            (if buf1 \<noteq> None then try_paths env path ([] # IncludePaths s) buf1 size1
             else (False, buf1, size1, False));
          errs2 = errs1 @ (if failed then [ReallocError] else [])
      in if ok then
           \<lparr>found = True, fullPath = buf2, bufSize = size2, errno = None, errors = errs2,
            depLines = printdep env (the buf2)\<rparr>
         else
           \<lparr>found = False, fullPath = buf2, bufSize = size2, errno = Some ENOENT,
            errors = errs2,
            depLines = (if oGeneratedMissingIncludes env then printdep env path else [])\<rparr>)"

text \<open>
  \<open>fstk_RunInclude\<close> starts the search with no buffer.  A file that is not found is an
  error, or is noted in \<open>oFailedOnMissingInclude\<close> when missing includes are being
  generated; a file that is found is opened by the lexer after the context is pushed.
  \<open>lexer_OpenFile\<close> is the lexer's and an argument here: it tells whether the file
  opens.
\<close>

record included =
  stack :: fstack
  opened :: "string option"
  oFailedOnMissingInclude :: bool
  reported :: "diagnostic list"

definition fstk_RunInclude ::
  "sysenv \<Rightarrow> (string \<Rightarrow> bool) \<Rightarrow> string \<Rightarrow> fstack \<Rightarrow> fatal + included" where
  "fstk_RunInclude env lexer_OpenFile tzFileName s =
     (let r = fstk_FindFile env s tzFileName None 0 in
      if \<not> found r then
        Inr \<lparr>stack = s, opened = None,
             oFailedOnMissingInclude = oGeneratedMissingIncludes env,
             reported = errors r @
               (if oGeneratedMissingIncludes env then []
                else [UnableToOpenIncluded tzFileName ENOENT])\<rparr>
      else
        (case pushcontext s of
           Inl e \<Rightarrow> Inl e
         | Inr s1 \<Rightarrow>
             if lexer_OpenFile (the (fullPath r)) then
               Inr \<lparr>stack = s1\<lparr>nCurrentStatus := STAT_isInclude\<rparr>, opened = fullPath r,
                    oFailedOnMissingInclude = False, reported = errors r\<rparr>
             else Inl FailedToOpenInclude))"

text \<open>
  \<open>fstk_RunMacro\<close>.  \<open>sym_FindSymbol\<close> is the symbol table's and an argument here: it
  yields the symbol's handle and whether its type is \<open>SYM_MACRO\<close>.
\<close>

definition fstk_RunMacro ::
  "(string \<Rightarrow> (handle \<times> bool) option) \<Rightarrow> string \<Rightarrow> handle \<Rightarrow> fstack
     \<Rightarrow> fatal + fstack \<times> diagnostic list" where
  "fstk_RunMacro sym_FindSymbol s args st =
     (case sym_FindSymbol s of
        None \<Rightarrow> Inr (st, [MacroNotDefined s])
      | Some (symbol, is_macro) \<Rightarrow>
          if \<not> is_macro then Inr (st, [NotAMacro s])
          else
            (case pushcontext st of
               Inl e \<Rightarrow> Inl e
             | Inr s1 \<Rightarrow>
                 Inr (s1\<lparr>macro_UniqueID := nMacroCount s1,
                         nMacroCount := nMacroCount s1 + 1,
                         macro_Args := args,
                         nCurrentStatus := STAT_isMacro,
                         pCurrentMacro := Some symbol\<rparr>, [])))"

text \<open>
  The search as the specification words it: the current directory when the name starts
  with \<open>./\<close>, else the configured include paths in order.
\<close>

definition spec_candidates :: "string list \<Rightarrow> string \<Rightarrow> string list" where
  "spec_candidates incPaths path =
     (if take 2 path = ''./'' then [path] else map (\<lambda>d. d @ path) incPaths)"

text \<open>
  An example world: \<open>a.inc\<close> exists both in the current directory and in the include
  directory \<open>inc/\<close>; nothing else exists, and memory is never short.
\<close>

definition two_copies :: sysenv where
  "two_copies = \<lparr>stat_dir = (\<lambda>p. if p = ''a.inc'' \<or> p = ''inc/a.inc'' then Some False else None),
     realloc_ok = (\<lambda>n. True), dependfile = False, tzTargetFileName = [],
     oGeneratePhonyDeps = False, oGeneratedMissingIncludes = False\<rparr>"

section \<open>Linker: the overlay check (src/unnamed/part_000, the output stage)\<close>

text \<open>
  \<open>overlayFile\<close> is a \<open>FILE *\<close>: \<open>None\<close> is the null pointer, and an open file has
  a size in bytes and shows whether \<open>fseek\<close> works on it; when it does, \<open>ftell\<close> at
  its end reports the size.  \<open>errx\<close> ends the run with an error; \<open>warnx\<close> only
  prints.  The bank count is a \<open>uint32_t\<close>, so the quotient is cut to 32 bits.
\<close>

definition BANK_SIZE :: nat where "BANK_SIZE = 0x4000"

record overlay =
  seekable :: bool
  fileSize :: nat

datatype overlay_error = NotMultipleOfBankSize | NotExactly0x8000 | Below0x8000

datatype overlay_check =
    Errx overlay_error
  | Return (warned: bool) (banks: "32 word")

definition checkOverlaySize :: "bool \<Rightarrow> overlay option \<Rightarrow> overlay_check" where
  "checkOverlaySize is32kMode overlayFile =
     (case overlayFile of
        None \<Rightarrow> Return False 0
      | Some f \<Rightarrow>
          if \<not> seekable f then Return True 0
          else
            let overlaySize = fileSize f in
            if overlaySize mod BANK_SIZE \<noteq> 0 then Errx NotMultipleOfBankSize
            else
              let nbOverlayBanks = (of_nat (overlaySize div BANK_SIZE) :: 32 word) in
              if is32kMode \<and> nbOverlayBanks \<noteq> 2 then Errx NotExactly0x8000
              else if nbOverlayBanks < 2 then Errx Below0x8000
              else Return False nbOverlayBanks)"

section \<open>Assembler: grammar actions (src/unnamed/part_001, the grammar)\<close>

subsection \<open>Loads of A from and to memory\<close>

text \<open>
  An \<open>Expression\<close> is known or not; its value is an \<open>int32_t\<close>.  The actions call the
  section builder; the model yields these calls in order, with the diagnostics and the new
  value of the flag \<open>warnOnLdOpt\<close>.  Registers are the values of the grammar's enum.
\<close>

record Expression =
  isKnown :: bool
  val :: "32 word"

datatype sect_call =
    sect_AbsByte "8 word"
  | sect_RelWord Expression nat
  | rpn_Free Expression

datatype asm_diag = WarningObsoleteLdOpt | ErrorDestinationMustBeA

record ld_result =
  warnOnLdOpt :: bool
  diags :: "asm_diag list"
  calls :: "sect_call list"

definition REG_A :: "32 word" where "REG_A = 7"

text \<open>\<open>T_Z80_LD reg_r T_COMMA op_mem_ind\<close>, the third alternative of \<open>z80_ld_a\<close>.\<close>

definition z80_ld_a :: "bool \<Rightarrow> bool \<Rightarrow> 32 word \<Rightarrow> Expression \<Rightarrow> ld_result" where
  "z80_ld_a optimizeLoads warn r e =
     (if r = REG_A then
        (if optimizeLoads \<and> isKnown e \<and> 0xFF00 \<le> sint (val e) then
           \<lparr>warnOnLdOpt = False,
            diags = (if warn then [WarningObsoleteLdOpt] else []),
            calls = [sect_AbsByte 0xF0, sect_AbsByte (ucast (val e AND 0xFF)), rpn_Free e]\<rparr>
         else
           \<lparr>warnOnLdOpt = warn, diags = [],
            calls = [sect_AbsByte 0xFA, sect_RelWord e 1]\<rparr>)
      else
        \<lparr>warnOnLdOpt = warn, diags = [ErrorDestinationMustBeA], calls = [rpn_Free e]\<rparr>)"

text \<open>\<open>T_Z80_LD op_mem_ind T_COMMA T_MODE_A\<close>, the second alternative of \<open>z80_ld_mem\<close>.\<close>

definition z80_ld_mem :: "bool \<Rightarrow> bool \<Rightarrow> Expression \<Rightarrow> ld_result" where
  "z80_ld_mem optimizeLoads warn e =
     (if optimizeLoads \<and> isKnown e \<and> 0xFF00 \<le> sint (val e) then
        \<lparr>warnOnLdOpt = False,
         diags = (if warn then [WarningObsoleteLdOpt] else []),
         calls = [sect_AbsByte 0xE0, sect_AbsByte (ucast (val e AND 0xFF)), rpn_Free e]\<rparr>
      else
        \<lparr>warnOnLdOpt = warn, diags = [],
         calls = [sect_AbsByte 0xEA, sect_RelWord e 1]\<rparr>)"

text \<open>
  Modelled from the spec: the byte emission of the section builder (asm/section.cpp is
  not among the sources).  \<open>AbsByte(b)\<close> emits the byte \<open>b\<close>; \<open>RelWord(expr, off)\<close>
  emits 16 bits, little-endian, the value itself when the expression is known and a
  placeholder of two zero bytes under a patch otherwise.
\<close>

fun emitted :: "sect_call \<Rightarrow> 8 word list" where
  "emitted (sect_AbsByte b) = [b]"
| "emitted (sect_RelWord e off) =
     (if isKnown e then [ucast (val e AND 0xFF), ucast (drop_bit 8 (val e) AND 0xFF)]
      else [0, 0])"
| "emitted (rpn_Free e) = []"

text \<open>Modelled from the spec: the bytes that the calls of an action emit, in order.\<close>

definition bytes_of :: "ld_result \<Rightarrow> 8 word list" where
  "bytes_of r = concat (map emitted (calls r))"

subsection \<open>Conditional assembly\<close>

text \<open>
  Modelled from the spec: the lexer's side of conditional assembly (asm/lexer.cpp is not
  among the sources).  The lexer keeps one entry per open \<open>IF\<close>, innermost first, with
  two flags: whether a branch of this level ran (RUN against PICK) and whether its
  \<open>ELSE\<close> was reached (SAW_ELSE); and it has a mode, which the skipping states
  SKIP_TO_ELIF and SKIP_TO_ENDC are.  The accessors do what their names say; \<open>ENDC\<close>
  pops one level, and with no level open it is fatal as \<open>ELIF\<close> and \<open>ELSE\<close> are.
\<close>

text \<open>Modelled from the spec: the lexer's entry for one open \<open>IF\<close>.\<close>

record IfStackEntry =
  ranIfBlock :: bool
  reachedElseBlock :: bool

datatype LexerMode =
  LEXER_NORMAL | LEXER_RAW | LEXER_SKIP_TO_ELIF | LEXER_SKIP_TO_ENDC | LEXER_SKIP_TO_ENDR

text \<open>Modelled from the spec: the lexer's state as far as conditional assembly reads and writes it.\<close>

record lexer =
  ifStack :: "IfStackEntry list"
  mode :: LexerMode

datatype if_fatal =
    ELIFOutsideIF | ELIFAfterELSE | ELSEOutsideIF | ELSEAfterELSE | ENDCOutsideIF

text \<open>Modelled from the spec: the number of open \<open>IF\<close> levels.\<close>

definition lexer_GetIFDepth :: "lexer \<Rightarrow> nat" where
  "lexer_GetIFDepth l = length (ifStack l)"

text \<open>Modelled from the spec: a new level, before any branch ran.\<close>

definition lexer_IncIFDepth :: "lexer \<Rightarrow> lexer" where
  "lexer_IncIFDepth l =
     l\<lparr>ifStack := \<lparr>ranIfBlock = False, reachedElseBlock = False\<rparr> # ifStack l\<rparr>"

text \<open>Modelled from the spec: \<open>ENDC\<close> pops one level.\<close>

definition lexer_DecIFDepth :: "lexer \<Rightarrow> if_fatal + lexer" where
  "lexer_DecIFDepth l =
     (case ifStack l of [] \<Rightarrow> Inl ENDCOutsideIF | e # es \<Rightarrow> Inr (l\<lparr>ifStack := es\<rparr>))"

text \<open>Modelled from the spec: whether a branch of the innermost level ran.\<close>

definition lexer_RanIFBlock :: "lexer \<Rightarrow> bool" where
  "lexer_RanIFBlock l = ranIfBlock (hd (ifStack l))"

text \<open>Modelled from the spec: whether the \<open>ELSE\<close> of the innermost level was reached.\<close>

definition lexer_ReachedELSEBlock :: "lexer \<Rightarrow> bool" where
  "lexer_ReachedELSEBlock l = reachedElseBlock (hd (ifStack l))"

text \<open>Modelled from the spec: the innermost level runs a branch.\<close>

definition lexer_RunIFBlock :: "lexer \<Rightarrow> lexer" where
  "lexer_RunIFBlock l =
     l\<lparr>ifStack := (hd (ifStack l))\<lparr>ranIfBlock := True\<rparr> # tl (ifStack l)\<rparr>"

text \<open>Modelled from the spec: the innermost level reaches its \<open>ELSE\<close>.\<close>

definition lexer_ReachELSEBlock :: "lexer \<Rightarrow> lexer" where
  "lexer_ReachELSEBlock l =
     l\<lparr>ifStack := (hd (ifStack l))\<lparr>reachedElseBlock := True\<rparr> # tl (ifStack l)\<rparr>"

text \<open>Modelled from the spec: the lexer changes its mode.\<close>

definition lexer_SetMode :: "LexerMode \<Rightarrow> lexer \<Rightarrow> lexer" where
  "lexer_SetMode m l = l\<lparr>mode := m\<rparr>"

text \<open>
  The actions of the rules \<open>if\<close>, \<open>elif\<close>, \<open>else\<close> and \<open>endc\<close>, from the grammar.  The
  condition is the \<open>int32_t\<close> value of \<open>const\<close>.  \<open>elif\<close> and \<open>else\<close> look at the top
  entry only after the test of the depth, so \<open>hd\<close> is never taken of an empty stack.
\<close>

definition if_action :: "32 word \<Rightarrow> lexer \<Rightarrow> if_fatal + lexer" where
  "if_action c l =
     (let l1 = lexer_IncIFDepth l in
      if c \<noteq> 0 then Inr (lexer_RunIFBlock l1)
      else Inr (lexer_SetMode LEXER_SKIP_TO_ELIF l1))"

definition elif_action :: "32 word \<Rightarrow> lexer \<Rightarrow> if_fatal + lexer" where
  "elif_action c l =
     (if lexer_GetIFDepth l = 0 then Inl ELIFOutsideIF
      else if lexer_RanIFBlock l then
        (if lexer_ReachedELSEBlock l then Inl ELIFAfterELSE
         else Inr (lexer_SetMode LEXER_SKIP_TO_ENDC l))
      else if c \<noteq> 0 then Inr (lexer_RunIFBlock l)
      else Inr (lexer_SetMode LEXER_SKIP_TO_ELIF l))"

definition else_action :: "lexer \<Rightarrow> if_fatal + lexer" where
  "else_action l =
     (if lexer_GetIFDepth l = 0 then Inl ELSEOutsideIF
      else if lexer_RanIFBlock l then
        (if lexer_ReachedELSEBlock l then Inl ELSEAfterELSE
         else Inr (lexer_SetMode LEXER_SKIP_TO_ENDC l))
      else Inr (lexer_ReachELSEBlock (lexer_RunIFBlock l)))"

definition endc_action :: "lexer \<Rightarrow> if_fatal + lexer" where
  "endc_action l = lexer_DecIFDepth l"

section \<open>UTF-8 decoding (extern/utf8decoder)\<close>

text \<open>
  The callers step a decoder one byte at a time: it takes the state, the code point so
  far and a byte, and yields the new state and code point.  State 0 means that a code
  point is complete, state 1 that the sequence is invalid.  The string routines below
  take the decoder as an argument.
\<close>

type_synonym decoder = "32 word \<Rightarrow> 32 word \<Rightarrow> 8 word \<Rightarrow> 32 word \<times> 32 word"

text \<open>
  Modelled from the spec: the UTF-8 decoder itself (extern/utf8decoder.cpp is not among
  the sources).  It is the usual automaton over byte classes: ASCII bytes are complete
  at once, a lead byte opens a sequence of one to three continuation bytes, and overlong
  forms, surrogates, values above U+10FFFF and stray bytes are invalid.
\<close>

definition byte_class :: "8 word \<Rightarrow> nat" where
  "byte_class b =
     (if b < 0x80 then 0 else if b < 0x90 then 1 else if b < 0xA0 then 9
      else if b < 0xC0 then 7 else if b < 0xC2 then 8 else if b < 0xE0 then 2
      else if b = 0xE0 then 10 else if b < 0xED then 3 else if b = 0xED then 4
      else if b < 0xF0 then 3 else if b = 0xF0 then 11 else if b < 0xF4 then 6
      else if b = 0xF4 then 5 else 8)"

text \<open>Modelled from the spec: the decoder's table of next states, a row per state and a column per byte class.\<close>

definition transitions :: "nat list list" where
  "transitions =
    [[0, 1, 2, 3, 5, 8, 7, 1, 1, 1, 4, 6],
     [1, 1, 1, 1, 1, 1, 1, 1, 1, 1, 1, 1],
     [1, 0, 1, 1, 1, 1, 1, 0, 1, 0, 1, 1],
     [1, 2, 1, 1, 1, 1, 1, 2, 1, 2, 1, 1],
     [1, 1, 1, 1, 1, 1, 1, 2, 1, 1, 1, 1],
     [1, 2, 1, 1, 1, 1, 1, 1, 1, 2, 1, 1],
     [1, 1, 1, 1, 1, 1, 1, 3, 1, 3, 1, 1],
     [1, 3, 1, 1, 1, 1, 1, 3, 1, 3, 1, 1],
     [1, 3, 1, 1, 1, 1, 1, 1, 1, 1, 1, 1]]"

text \<open>Modelled from the spec: one step of the decoder; the states are 0 to 8.\<close>

definition decode :: decoder where
  "decode state codep byte =
     (let t = byte_class byte;
          codep' = (if state \<noteq> 0 then (ucast byte AND 0x3F) OR push_bit 6 codep
                    else drop_bit t 0xFF AND ucast byte);
          state' = (if unat state < 9 then of_nat (transitions ! unat state ! t) else 1)
      in (state', codep'))"

section \<open>Assembler: string functions (src/unnamed/part_001, the grammar)\<close>

datatype str_diag =
    WarnPositionStartsAt1 string
  | WarnPositionPastEnd nat
  | WarnLengthTooBig nat
  | ErrInvalidUTF8Byte char string
  | ErrIncompleteUTF8 string

fun is_warning :: "str_diag \<Rightarrow> bool" where
  "is_warning (WarnPositionStartsAt1 f) = True"
| "is_warning (WarnPositionPastEnd p) = True"
| "is_warning (WarnLengthTooBig n) = True"
| "is_warning (ErrInvalidUTF8Byte b f) = False"
| "is_warning (ErrIncompleteUTF8 f) = False"

text \<open>
  The loop of \<open>strlenUTF8\<close>: a character is counted when the decoder completes a code
  point, and also when it rejects a byte, after which the state is reset.  The loop
  yields the count, the final state and the errors reported.
\<close>

fun strlen_loop ::
  "decoder \<Rightarrow> string \<Rightarrow> 32 word \<Rightarrow> 32 word \<Rightarrow> nat \<Rightarrow> nat \<times> 32 word \<times> str_diag list" where
  "strlen_loop dec [] state codep len = (len, state, [])"
| "strlen_loop dec (c # s) state codep len =
     (case dec state codep (of_char c) of (state', codep') \<Rightarrow>
        if state' = 1 then
          (case strlen_loop dec s 0 codep' (len + 1) of (n, st, ds) \<Rightarrow>
             (n, st, ErrInvalidUTF8Byte c ''STRLEN'' # ds))
        else if state' = 0 then strlen_loop dec s state' codep' (len + 1)
        else strlen_loop dec s state' codep' len)"

definition strlenUTF8 :: "decoder \<Rightarrow> string \<Rightarrow> nat \<times> str_diag list" where
  "strlenUTF8 dec s =
     (case strlen_loop dec s 0 0 0 of (len, state, ds) \<Rightarrow>
        (len, ds @ (if state \<noteq> 0 then [ErrIncompleteUTF8 ''STRLEN''] else [])))"

text \<open>
  \<open>strsubUTF8\<close>, first loop: advance in the source up to character position \<open>pos\<close>.
  It yields what is left of the source, the decoder's state and code point, the position
  reached and the errors.
\<close>

fun advance ::
  "decoder \<Rightarrow> string \<Rightarrow> 32 word \<Rightarrow> 32 word \<Rightarrow> nat \<Rightarrow> nat
     \<Rightarrow> string \<times> 32 word \<times> 32 word \<times> nat \<times> str_diag list" where
  "advance dec [] state codep curPos pos = ([], state, codep, curPos, [])"
| "advance dec (c # s) state codep curPos pos =
     (if curPos < pos then
        (case dec state codep (of_char c) of (state', codep') \<Rightarrow>
           if state' = 1 then
             (case advance dec s 0 codep' (curPos + 1) pos of (r, st, cp, p, ds) \<Rightarrow>
                (r, st, cp, p, ErrInvalidUTF8Byte c ''STRSUB'' # ds))
           else if state' = 0 then advance dec s state' codep' (curPos + 1) pos
           else advance dec s state' codep' curPos pos)
      else (c # s, state, codep, curPos, []))"

text \<open>
  Second loop: copy bytes until \<open>len\<close> characters are complete, the source ends or the
  destination is full.  It yields the bytes copied, the decoder's state, the number of
  characters copied and the errors.
\<close>

fun copy_chars ::
  "decoder \<Rightarrow> nat \<Rightarrow> string \<Rightarrow> 32 word \<Rightarrow> 32 word \<Rightarrow> nat \<Rightarrow> nat \<Rightarrow> nat
     \<Rightarrow> string \<times> 32 word \<times> nat \<times> str_diag list" where
  "copy_chars dec destLen [] state codep destIndex curLen len = ([], state, curLen, [])"
| "copy_chars dec destLen (c # s) state codep destIndex curLen len =
     (if destIndex < destLen - 1 \<and> curLen < len then
        (case dec state codep (of_char c) of (state', codep') \<Rightarrow>
           if state' = 1 then
             (case copy_chars dec destLen s 0 codep' (destIndex + 1) (curLen + 1) len of
                (d, st, n, ds) \<Rightarrow> (c # d, st, n, ErrInvalidUTF8Byte c ''STRSUB'' # ds))
           else if state' = 0 then
             (case copy_chars dec destLen s state' codep' (destIndex + 1) (curLen + 1) len of
                (d, st, n, ds) \<Rightarrow> (c # d, st, n, ds))
           else
             (case copy_chars dec destLen s state' codep' (destIndex + 1) curLen len of
                (d, st, n, ds) \<Rightarrow> (c # d, st, n, ds)))
      else ([], state, curLen, []))"

text \<open>
  \<open>strsubUTF8\<close>: \<open>destLen\<close> is the size of the destination, \<open>sizeof\<close> of a string buffer
  and so at least 1; \<open>pos\<close> and \<open>len\<close> are \<open>uint32_t\<close> values.  The counters stay below
  the length of the source plus two, so they never wrap.
\<close>

definition strsubUTF8 :: "decoder \<Rightarrow> nat \<Rightarrow> string \<Rightarrow> nat \<Rightarrow> nat \<Rightarrow> string \<times> str_diag list" where
  "strsubUTF8 dec destLen src pos len =
     (case advance dec src 0 0 1 pos of (rest, state, codep, curPos, ds1) \<Rightarrow>
        let w1 = (if rest = [] \<and> pos > curPos then [WarnPositionPastEnd pos] else []) in
        (case copy_chars dec destLen rest state codep 0 0 len of (dest, state', curLen, ds2) \<Rightarrow>
           let w2 = (if curLen < len then [WarnLengthTooBig len] else []);
               e = (if state' \<noteq> 0 then [ErrIncompleteUTF8 ''STRSUB''] else [])
           in (dest, ds1 @ w1 @ ds2 @ w2 @ e)))"

text \<open>
  \<open>adjustNegativePos\<close>: \<open>pos\<close> is an \<open>int32_t\<close>; the sum with the length is cut back to 32
  bits when it is stored.  The result is the \<open>uint32_t\<close> position.
\<close>

definition adjustNegativePos :: "32 word \<Rightarrow> nat \<Rightarrow> string \<Rightarrow> nat \<times> str_diag list" where
  "adjustNegativePos pos len functionName =
     (let pos1 = (if sint pos < 0 then pos + of_nat len + 1 else pos) in
      if sint pos1 < 1 then (1, [WarnPositionStartsAt1 functionName])
      else (unat pos1, []))"

text \<open>The action of \<open>STRSUB(string, const, uconst)\<close>, first alternative of the rule.\<close>

definition STRSUB :: "decoder \<Rightarrow> nat \<Rightarrow> string \<Rightarrow> 32 word \<Rightarrow> nat \<Rightarrow> string \<times> str_diag list" where
  "STRSUB dec destLen s p n =
     (case strlenUTF8 dec s of (len, ds1) \<Rightarrow>
      case adjustNegativePos p len ''STRSUB'' of (pos, ds2) \<Rightarrow>
      case strsubUTF8 dec destLen s pos n of (dest, ds3) \<Rightarrow> (dest, ds1 @ ds2 @ ds3))"

text \<open>The action of \<open>STRSUB(string, const)\<close>: the length is what is left from the position.\<close>

definition STRSUB2 :: "decoder \<Rightarrow> nat \<Rightarrow> string \<Rightarrow> 32 word \<Rightarrow> string \<times> str_diag list" where
  "STRSUB2 dec destLen s p =
     (case strlenUTF8 dec s of (len, ds1) \<Rightarrow>
      case adjustNegativePos p len ''STRSUB'' of (pos, ds2) \<Rightarrow>
      case strsubUTF8 dec destLen s pos (if pos > len then 0 else len + 1 - pos) of
        (dest, ds3) \<Rightarrow> (dest, ds1 @ ds2 @ ds3))"

definition warnings :: "string \<times> str_diag list \<Rightarrow> str_diag list" where
  "warnings r = filter is_warning (snd r)"

section \<open>Linker: placed sections (src/unnamed/part_000, the output stage)\<close>

text \<open>
  The members of \<open>struct Section\<close> and \<open>struct Symbol\<close> that the output stage reads.
  The origin and the size of a section are 16-bit, the bank is 32-bit, as the formats
  they are printed with show; sums of origin and size are taken in \<open>int\<close>, so they do not
  wrap.  \<open>nextu\<close> links the next piece of a union or of a fragment.
\<close>

datatype SectionType =
    SECTTYPE_WRAM0 | SECTTYPE_VRAM | SECTTYPE_ROMX | SECTTYPE_ROM0
  | SECTTYPE_HRAM | SECTTYPE_WRAMX | SECTTYPE_SRAM | SECTTYPE_OAM

record Symbol =
  name :: string
  offset :: "32 word"

datatype Section =
  Section (sect_name: string) (sect_type: SectionType) (bank: "32 word") (org: "16 word")
    (sect_size: "16 word") (symbols: "Symbol list") (nextu: "Section option")

record SortedSections =
  sections :: "Section list"
  zeroLenSections :: "Section list"

text \<open>\<open>sections[type]\<close> is a deque of banks for each type: a list per type.\<close>

type_synonym placed = "SectionType \<Rightarrow> SortedSections list"

definition maxNbBanks :: "SectionType \<Rightarrow> 32 word" where
  "maxNbBanks t =
     (case t of
        SECTTYPE_WRAM0 \<Rightarrow> 1 | SECTTYPE_VRAM \<Rightarrow> 2 | SECTTYPE_ROMX \<Rightarrow> 0xFFFFFFFF
      | SECTTYPE_ROM0 \<Rightarrow> 1 | SECTTYPE_HRAM \<Rightarrow> 1 | SECTTYPE_WRAMX \<Rightarrow> 7
      | SECTTYPE_SRAM \<Rightarrow> 0xFFFFFFFF | SECTTYPE_OAM \<Rightarrow> 1)"

datatype link_error =
    InvalidBankRange string "32 word" "32 word"
  | OutOfRangeAccess

text \<open>
  The insertion of \<open>out_AddSection\<close>: the iterator stops at the first section whose
  origin is not below the new one's, and the new section goes in front of it.
\<close>

fun insert_by_org :: "Section \<Rightarrow> Section list \<Rightarrow> Section list" where
  "insert_by_org section [] = [section]"
| "insert_by_org section (pos # rest) =
     (if org pos < org section then pos # insert_by_org section rest
      else section # pos # rest)"

text \<open>
  \<open>out_AddSection\<close>.  \<open>firstBank\<close> is \<open>sectionTypeInfo[type].firstBank\<close>, a table of a
  header, and an argument here.  The bank numbers are \<open>uint32_t\<close> and wrap.  An index
  past the end of a deque is not defined in C++; the model reports it as an error of its
  own.
\<close>

definition out_AddSection ::
  "(SectionType \<Rightarrow> 32 word) \<Rightarrow> placed \<Rightarrow> Section \<Rightarrow> link_error + placed" where
  "out_AddSection firstBank secs section =
     (let ty = sect_type section;
          targetBank = bank section - firstBank ty;
          minNbBanks = targetBank + 1
      in if minNbBanks > maxNbBanks ty
           then Inl (InvalidBankRange (sect_name section) (bank section) (maxNbBanks ty - 1))
         else
           let banks = secs ty @ replicate (unat minNbBanks - length (secs ty))
                                   \<lparr>sections = [], zeroLenSections = []\<rparr>;
               i = unat targetBank
           in if i \<ge> length banks then Inl OutOfRangeAccess
              else
                let b = banks ! i;
                    b' = (if sect_size section \<noteq> 0
                          then b\<lparr>sections := insert_by_org section (sections b)\<rparr>
                          else b\<lparr>zeroLenSections := insert_by_org section (zeroLenSections b)\<rparr>)
                in Inr (secs(ty := banks[i := b'])))"

text \<open>The test of \<open>out_OverlappingSection\<close> on two sections, computed in \<open>int\<close>.\<close>

definition overlaps :: "Section \<Rightarrow> Section \<Rightarrow> bool" where
  "overlaps ptr section =
     (uint (org ptr) < uint (org section) + uint (sect_size section) \<and>
      uint (org section) < uint (org ptr) + uint (sect_size ptr))"

definition out_OverlappingSection ::
  "(SectionType \<Rightarrow> 32 word) \<Rightarrow> placed \<Rightarrow> Section \<Rightarrow> link_error + Section option" where
  "out_OverlappingSection firstBank secs section =
     (let ty = sect_type section;
          i = unat (bank section - firstBank ty)
      in if i \<ge> length (secs ty) then Inl OutOfRangeAccess
         else Inr (find (\<lambda>ptr. overlaps ptr section) (sections (secs ty ! i))))"

text \<open>
  What is stated about the placed sections: in every bank both lists are in increasing
  order of origin, the first holds the sections of nonzero size and the second those of
  size zero, and no two sections of the first list overlap.
\<close>

definition bank_sorted :: "SortedSections \<Rightarrow> bool" where
  "bank_sorted b =
     (sorted_wrt (\<lambda>x y. org x \<le> org y) (sections b) \<and>
      sorted_wrt (\<lambda>x y. org x \<le> org y) (zeroLenSections b) \<and>
      list_all (\<lambda>x. sect_size x \<noteq> 0) (sections b) \<and>
      list_all (\<lambda>x. sect_size x = 0) (zeroLenSections b))"

definition bank_disjoint :: "SortedSections \<Rightarrow> bool" where
  "bank_disjoint b = sorted_wrt (\<lambda>x y. \<not> overlaps x y \<and> \<not> overlaps y x) (sections b)"

text \<open>
  A sequence of \<open>out_AddSection\<close> calls in which a section of nonzero size is added only
  when \<open>out_OverlappingSection\<close> has no section to report for it: its bank does not exist
  yet, or the search returns the null pointer.
\<close>

definition clear_to_add :: "(SectionType \<Rightarrow> 32 word) \<Rightarrow> placed \<Rightarrow> Section \<Rightarrow> bool" where
  "clear_to_add firstBank secs section =
     (sect_size section = 0 \<or>
      (case out_OverlappingSection firstBank secs section of
         Inl e \<Rightarrow> True | Inr None \<Rightarrow> True | Inr (Some ptr) \<Rightarrow> False))"

inductive checked_adds :: "(SectionType \<Rightarrow> 32 word) \<Rightarrow> placed \<Rightarrow> bool"
  for firstBank :: "SectionType \<Rightarrow> 32 word" where
  nothing: "checked_adds firstBank (\<lambda>t. [])"
| added: "checked_adds firstBank secs \<Longrightarrow> clear_to_add firstBank secs section \<Longrightarrow>
            out_AddSection firstBank secs section = Inr secs' \<Longrightarrow>
            checked_adds firstBank secs'"

text \<open>Any sequence of \<open>out_AddSection\<close> calls, checked or not.\<close>

inductive adds :: "(SectionType \<Rightarrow> 32 word) \<Rightarrow> placed \<Rightarrow> bool"
  for firstBank :: "SectionType \<Rightarrow> 32 word" where
  none: "adds firstBank (\<lambda>t. [])"
| one_more: "adds firstBank secs \<Longrightarrow> out_AddSection firstBank secs section = Inr secs' \<Longrightarrow>
            adds firstBank secs'"

text \<open>The first banks of the usual table: ROMX, WRAMX start at bank 1, the others at 0.\<close>

definition usual_firstBank :: "SectionType \<Rightarrow> 32 word" where
  "usual_firstBank t = (if t = SECTTYPE_ROMX \<or> t = SECTTYPE_WRAMX then 1 else 0)"

section \<open>Linker: the symbol file (src/unnamed/part_000, the output stage)\<close>

text \<open>
  Names are C strings: the end of the list stands for the terminating NUL, which no name
  contains.  Characters compare as their byte values; the tests below involve ASCII
  letters and digits only, so that a \<open>char\<close> with the top bit set fails them whether
  \<open>char\<close> is signed or not.
\<close>

definition canStartSymName :: "char \<Rightarrow> bool" where
  "canStartSymName c =
     ((CHR ''A'' \<le> c \<and> c \<le> CHR ''Z'') \<or> (CHR ''a'' \<le> c \<and> c \<le> CHR ''z'') \<or> c = CHR ''_'')"

definition isLegalForSymName :: "char \<Rightarrow> bool" where
  "isLegalForSymName c =
     ((CHR ''A'' \<le> c \<and> c \<le> CHR ''Z'') \<or> (CHR ''a'' \<le> c \<and> c \<le> CHR ''z'') \<or>
      (CHR ''0'' \<le> c \<and> c \<le> CHR ''9'') \<or>
      c = CHR ''_'' \<or> c = CHR ''@'' \<or> c = CHR ''#'' \<or> c = CHR ''$'' \<or> c = CHR ''.'')"

text \<open>
  \<open>printf\<close> with \<open>%0wx\<close>: lowercase hexadecimal, padded with zeros to at least \<open>w\<close>
  digits.
\<close>

definition hex_digit :: "nat \<Rightarrow> char" where
  "hex_digit d = ''0123456789abcdef'' ! d"

fun hex :: "nat \<Rightarrow> string" where
  "hex n = (if n < 16 then [hex_digit n] else hex (n div 16) @ [hex_digit (n mod 16)])"

declare hex.simps [simp del]

definition hex_padded :: "nat \<Rightarrow> nat \<Rightarrow> string" where
  "hex_padded w n = replicate (w - length (hex n)) CHR ''0'' @ hex n"

definition escape :: "32 word \<Rightarrow> string" where
  "escape codepoint =
     (if codepoint \<le> 0xFFFF then CHR 0x5C # CHR ''u'' # hex_padded 4 (unat codepoint)
      else CHR 0x5C # CHR ''U'' # hex_padded 8 (unat codepoint))"

text \<open>
  A loop of the program may not end.  A run either returns, or goes on when the fuel
  given to it is used up, or reads past the end of the name, or calls the standard
  library against the library's requirements, where the language defines no result.
\<close>

datatype 'a run = Returns 'a | ReadsPastEnd | NoFuel | NotDefined

definition is_continuation :: "char \<Rightarrow> bool" where
  "is_continuation c = ((of_char c :: 8 word) AND 0xC0 = 0x80)"

text \<open>
  The \<open>do ... while (state != 0)\<close> loop of \<open>printSymName\<close>, from the state and the rest
  of the name at \<open>ptr\<close>.  It returns the code point to print and the rest of the name
  where \<open>ptr\<close> is left.  On a rejected byte the continuation bytes from \<open>ptr\<close> on are
  skipped, \<open>ptr\<close> being still at the rejected byte, and the loop is left.  At the end of
  the name the byte read is the NUL; going on from there reads past the end.
\<close>

fun decode_seq :: "decoder \<Rightarrow> 32 word \<Rightarrow> 32 word \<Rightarrow> string \<Rightarrow> (32 word \<times> string) run" where
  "decode_seq dec state codepoint [] =
     (case dec state codepoint 0 of (state', codepoint') \<Rightarrow>
        if state' = 1 then Returns (0xFFFD, []) else ReadsPastEnd)"
| "decode_seq dec state codepoint (c # rest) =
     (case dec state codepoint (of_char c) of (state', codepoint') \<Rightarrow>
        if state' = 1 then Returns (0xFFFD, dropWhile is_continuation (c # rest))
        else if state' \<noteq> 0 then decode_seq dec state' codepoint' rest
        else Returns (codepoint', rest))"

text \<open>
  \<open>printSymName\<close>: the outer loop runs until \<open>ptr\<close> is at the NUL.  Each turn of the loop
  takes one unit of fuel.  (\<open>codepoint\<close> starts uninitialised; the decoder sets it from
  state 0 without reading it.)
\<close>

fun printSymName :: "decoder \<Rightarrow> nat \<Rightarrow> string \<Rightarrow> string run" where
  "printSymName dec 0 ptr = NoFuel"
| "printSymName dec (Suc fuel) [] = Returns []"
| "printSymName dec (Suc fuel) (c # rest) =
     (if isLegalForSymName c then
        (case printSymName dec fuel rest of
           Returns out \<Rightarrow> Returns (c # out)
         | ReadsPastEnd \<Rightarrow> ReadsPastEnd
         | NoFuel \<Rightarrow> NoFuel
         | NotDefined \<Rightarrow> NotDefined)
      else
        (case decode_seq dec 0 0 (c # rest) of
           Returns (codepoint, ptr') \<Rightarrow>
             (case printSymName dec fuel ptr' of
                Returns out \<Rightarrow> Returns (escape codepoint @ out)
              | ReadsPastEnd \<Rightarrow> ReadsPastEnd
              | NoFuel \<Rightarrow> NoFuel
              | NotDefined \<Rightarrow> NotDefined)
         | ReadsPastEnd \<Rightarrow> ReadsPastEnd
         | NoFuel \<Rightarrow> NoFuel
         | NotDefined \<Rightarrow> NotDefined))"

record SortedSymbol =
  sym :: Symbol
  addr :: "16 word"

text \<open>
  \<open>std::string\<close>: \<open>starts_with\<close>, and \<open>operator[]\<close>, which yields the NUL at the
  position of the length.
\<close>

definition starts_with :: "string \<Rightarrow> string \<Rightarrow> bool" where
  "starts_with s p = (take (length p) s = p)"

definition char_at :: "string \<Rightarrow> nat \<Rightarrow> char" where
  "char_at s i = (if i < length s then s ! i else CHR 0x00)"

definition is_local :: "SortedSymbol \<Rightarrow> bool" where
  "is_local s = (CHR ''.'' \<in> set (name (sym s)))"

definition compareSymbols :: "SortedSymbol \<Rightarrow> SortedSymbol \<Rightarrow> int" where
  "compareSymbols sym1 sym2 =
     (if addr sym1 \<noteq> addr sym2 then (if addr sym1 < addr sym2 then - 1 else 1)
      else
        let sym1_name = name (sym sym1);
            sym2_name = name (sym sym2);
            sym1_local = is_local sym1;
            sym2_local = is_local sym2
        in if sym1_local \<noteq> sym2_local then
             (let sym1_len = length sym1_name;
                  sym2_len = length sym2_name
              in if starts_with sym2_name sym1_name \<and> char_at sym2_name sym1_len = CHR ''.''
                   then - 1
                 else if starts_with sym1_name sym2_name \<and> char_at sym1_name sym2_len = CHR ''.''
                   then 1
                 else if sym1_local then - 1 else 1)
           else 0)"

text \<open>
  \<open>std::stable_sort\<close> is the standard library's, not the program's.  It calls the
  comparison as a predicate, "is the first before the second", and the C++ standard
  requires the predicate to be a strict weak ordering of the elements: irreflexive and
  transitive, with "neither is before the other" transitive too.  Under this
  requirement the result is the same in every library: the elements in order, those that
  are equivalent in their order of input.  Against it the call has no defined result, and
  libraries differ in what they then do.
\<close>

definition equivalent :: "('a \<Rightarrow> 'a \<Rightarrow> bool) \<Rightarrow> 'a \<Rightarrow> 'a \<Rightarrow> bool" where
  "equivalent before x y = (\<not> before x y \<and> \<not> before y x)"

definition strict_weak_ordering :: "('a \<Rightarrow> 'a \<Rightarrow> bool) \<Rightarrow> 'a list \<Rightarrow> bool" where
  "strict_weak_ordering before xs =
     (list_all (\<lambda>x. \<not> before x x) xs \<and>
      list_all (\<lambda>x. list_all (\<lambda>y. list_all (\<lambda>z.
        if before x y \<and> before y z then before x z else True) xs) xs) xs \<and>
      list_all (\<lambda>x. list_all (\<lambda>y. list_all (\<lambda>z.
        if equivalent before x y \<and> equivalent before y z then equivalent before x z
        else True) xs) xs) xs)"

text \<open>
  Where the requirement is met, the result is that of the insertion sort that puts each
  element in front of the first one that is not before it.
\<close>

fun insert_stable :: "('a \<Rightarrow> 'a \<Rightarrow> bool) \<Rightarrow> 'a \<Rightarrow> 'a list \<Rightarrow> 'a list" where
  "insert_stable before x [] = [x]"
| "insert_stable before x (y # ys) =
     (if before y x then y # insert_stable before x ys else x # y # ys)"

definition stable_sort :: "('a \<Rightarrow> 'a \<Rightarrow> bool) \<Rightarrow> 'a list \<Rightarrow> 'a list run" where
  "stable_sort before xs =
     (if strict_weak_ordering before xs then Returns (foldr (insert_stable before) xs [])
      else NotDefined)"

text \<open>
  \<open>writeSymBank\<close> passes \<open>compareSymbols\<close> to \<open>std::stable_sort\<close>; the call converts the
  \<open>int\<close> that \<open>compareSymbols\<close> returns to \<open>bool\<close>, and any value but 0 is true.
\<close>

definition sort_symbols :: "SortedSymbol list \<Rightarrow> SortedSymbol list run" where
  "sort_symbols symList = stable_sort (\<lambda>a b. compareSymbols a b \<noteq> 0) symList"

text \<open>A section and the pieces linked behind it by \<open>nextu\<close>.\<close>

fun pieces :: "Section \<Rightarrow> Section list" where
  "pieces (Section n t b ad sz syms nx) =
     Section n t b ad sz syms nx # (case nx of None \<Rightarrow> [] | Some sect \<Rightarrow> pieces sect)"

definition forEachSortedSection :: "SortedSections \<Rightarrow> Section list" where
  "forEachSortedSection bankSections =
     concat (map pieces (zeroLenSections bankSections)) @
     concat (map pieces (sections bankSections))"

definition symbols_of :: "Section \<Rightarrow> SortedSymbol list" where
  "symbols_of sect =
     map (\<lambda>s. \<lparr>sym = s, addr = ucast (offset s + ucast (org sect))\<rparr>)
       (filter (\<lambda>s. name s \<noteq> [] \<and> canStartSymName (hd (name s))) (symbols sect))"

fun print_entries :: "decoder \<Rightarrow> nat \<Rightarrow> 32 word \<Rightarrow> SortedSymbol list \<Rightarrow> string run" where
  "print_entries dec fuel symBank [] = Returns []"
| "print_entries dec fuel symBank (s # rest) =
     (case printSymName dec fuel (name (sym s)) of
        Returns shown \<Rightarrow>
          (case print_entries dec fuel symBank rest of
             Returns out \<Rightarrow>
               Returns (hex_padded 2 (unat symBank) @ '':'' @ hex_padded 4 (unat (addr s)) @
                        '' '' @ shown @ [CHR 0x0A] @ out)
           | ReadsPastEnd \<Rightarrow> ReadsPastEnd
           | NoFuel \<Rightarrow> NoFuel
           | NotDefined \<Rightarrow> NotDefined)
      | ReadsPastEnd \<Rightarrow> ReadsPastEnd
      | NoFuel \<Rightarrow> NoFuel
      | NotDefined \<Rightarrow> NotDefined)"

text \<open>
  \<open>writeSymBank\<close>: what is written to the symbol file for one bank.  \<open>fuel\<close> bounds the
  turns of the loop over each name.
\<close>

definition writeSymBank ::
  "decoder \<Rightarrow> nat \<Rightarrow> (SectionType \<Rightarrow> 32 word) \<Rightarrow> SortedSections \<Rightarrow> SectionType \<Rightarrow> 32 word
     \<Rightarrow> string run" where
  "writeSymBank dec fuel firstBank bankSections ty bnk =
     (let sects = forEachSortedSection bankSections;
          nbSymbols = (of_nat (sum_list (map (\<lambda>sect. length (symbols sect)) sects)) :: 32 word)
      in if nbSymbols = 0 then Returns []
         else
           let symList = concat (map symbols_of sects);
               symBank = bnk + firstBank ty
           in (case sort_symbols symList of
                 Returns symList' \<Rightarrow> print_entries dec fuel symBank symList'
               | ReadsPastEnd \<Rightarrow> ReadsPastEnd
               | NoFuel \<Rightarrow> NoFuel
               | NotDefined \<Rightarrow> NotDefined))"

section \<open>Properties of the file stack\<close>

text \<open>
  C10. A \<open>REPT\<close> block with an iteration count of zero pushes no context frame and runs
  its body zero times: \<open>fstk_RunRept\<close> ends without a fatal error and leaves the whole
  state as it was, in particular the context stack and its depth, the current status and
  the REPT block state; the grammar action does the same whether or not the capture was
  complete.
\<close>

theorem fstk_RunRept_zero:
  "fstk_RunRept 0 lineNo s = Inr s \<and> rept captured 0 lineNo s = Inr s"
  by (simp add: fstk_RunRept_def rept_def)

lemma word32_le3_cases:
  "unat (w::32 word) \<le> 3 \<Longrightarrow> w = 0 \<or> w = 1 \<or> w = 2 \<or> w = 3"
proof -
  assume "unat w \<le> 3"
  then have "unat w = 0 \<or> unat w = 1 \<or> unat w = 2 \<or> unat w = 3" by arith
  then show ?thesis by (auto simp: word_unat_eq_iff)
qed

text \<open>
  C9. Pushing a context frame (for an include, a macro call or a repeat block) when the
  depth counter is below the top of its 32-bit range: if the depth after the push would
  exceed the configured recursion limit, the assembler stops with the fatal error of the
  recursion limit and nothing is pushed; otherwise, once the frame's memory is obtained
  and the status is one of the four known ones, one frame is appended to the stack and
  the depth is higher by exactly one.
\<close>

theorem pushcontext_recursion_limit:
  assumes "unat (nFileStackDepth s) < 2 ^ 32 - 1"
  shows "if unat (nMaxRecursionDepth s) < unat (nFileStackDepth s) + 1
         then pushcontext s = Inl (RecursionLimitExceeded (nMaxRecursionDepth s))
         else (malloc_ok s \<and> unat (nCurrentStatus s) \<le> 3 \<longrightarrow>
                (\<exists>s'. pushcontext s = Inr s' \<and>
                      unat (nFileStackDepth s') = unat (nFileStackDepth s) + 1 \<and>
                      length (pFileStack s') = length (pFileStack s) + 1 \<and>
                      butlast (pFileStack s') = pFileStack s))"
proof -
  have suc: "unat (nFileStackDepth s + 1) = unat (nFileStackDepth s) + 1"
    using assms by (simp add: unat_word_ariths)
  have cmp: "(nFileStackDepth s + 1 > nMaxRecursionDepth s) =
             (unat (nMaxRecursionDepth s) < unat (nFileStackDepth s) + 1)"
    by (simp add: word_less_nat_alt suc)
  show ?thesis
    using word32_le3_cases [of "nCurrentStatus s"] unfolding pushcontext_def Let_def cmp
    by (auto simp: suc STAT_isInclude_def STAT_isMacro_def STAT_isMacroArg_def
          STAT_isREPTBlock_def)
qed

text \<open>
  With a recursion limit of one, the first push from the initial state succeeds and
  reaches depth one; a second push is fatal.
\<close>

theorem pushcontext_recursion_limit_witness:
  "pushcontext (fstk_Init (zeroed\<lparr>nMaxRecursionDepth := 1\<rparr>)) =
     Inr (fstk_Init (zeroed\<lparr>nMaxRecursionDepth := 1\<rparr>)
           \<lparr>nFileStackDepth := 1,
            pFileStack := [\<lparr>nLine = 0, nStatus = 0, members = SavedInclude, uniqueID = 0\<rparr>]\<rparr>)
   \<and> (\<exists>s'. pushcontext (fstk_Init (zeroed\<lparr>nMaxRecursionDepth := 1\<rparr>)) = Inr s' \<and>
          unat (nFileStackDepth s') = 1 \<and> length (pFileStack s') = 1)
   \<and> pushcontext (fstk_Init (zeroed\<lparr>nMaxRecursionDepth := 1\<rparr>)\<lparr>nFileStackDepth := 1\<rparr>) =
       Inl (RecursionLimitExceeded 1)"
  using pushcontext_recursion_limit [of "fstk_Init (zeroed\<lparr>nMaxRecursionDepth := 1\<rparr>)"]
        pushcontext_recursion_limit
          [of "fstk_Init (zeroed\<lparr>nMaxRecursionDepth := 1\<rparr>)\<lparr>nFileStackDepth := 1\<rparr>"]
  by (simp add: fstk_Init_def zeroed_def pushcontext_def STAT_isInclude_def STAT_isMacro_def
        STAT_isMacroArg_def)

subsection \<open>The include-path search\<close>

lemma try_paths_ok:
  assumes "\<forall>n. realloc_ok env n"
  shows "case List.find (isPathValid env) (map (\<lambda>d. d @ path) incs) of
           Some c \<Rightarrow> (\<exists>sz'. try_paths env path incs buf sz = (True, Some c, sz', False))
         | None \<Rightarrow> (\<exists>b sz'. try_paths env path incs buf sz = (False, b, sz', False))"
  using assms by (induction incs arbitrary: buf sz) (auto simp: Let_def split: option.splits)

text \<open>The table of include paths keeps the order in which the directories were added.\<close>

lemma fstk_AddIncludePath_order:
  "fstk_AddIncludePath m p d s = Inr s' \<Longrightarrow>
     \<exists>entry. IncludePaths s' = IncludePaths s @ [entry] \<and> (entry = d \<or> entry = d @ ''/'')"
  by (auto simp: fstk_AddIncludePath_def Let_def split: if_splits)

text \<open>
  C2, as the code has it. For every \<open>INCLUDE\<close> of a file name (\<open>fstk_RunInclude\<close> starts
  the search with no buffer), when memory is not short: the name itself is tried first,
  whatever its first characters are, and then the name behind each configured include
  path, in the order in which the paths were added; the first candidate that names an
  existing file that is not a directory is the result; if there is none, the search
  fails with \<open>errno\<close> set to \<open>ENOENT\<close>.
\<close>

theorem fstk_FindFile_search:
  assumes "\<forall>n. realloc_ok env n"
  shows "case List.find (isPathValid env) (path # map (\<lambda>d. d @ path) (IncludePaths s)) of
           Some c \<Rightarrow> found (fstk_FindFile env s path None 0) \<and>
                     fullPath (fstk_FindFile env s path None 0) = Some c \<and>
                     errno (fstk_FindFile env s path None 0) = None
         | None \<Rightarrow> \<not> found (fstk_FindFile env s path None 0) \<and>
                   errno (fstk_FindFile env s path None 0) = Some ENOENT"
proof -
  have eq: "path # map (\<lambda>d. d @ path) (IncludePaths s) =
            map (\<lambda>d. d @ path) ([] # IncludePaths s)"
    by simp
  show ?thesis
    unfolding eq
    using try_paths_ok [OF assms, of path "[] # IncludePaths s" "Some []" 64] assms
    by (auto simp: fstk_FindFile_def Let_def split: option.splits
          simp del: try_paths.simps list.map)
qed

text \<open>
  With \<open>inc\<close> added as the only include path: \<open>a.inc\<close> is found as \<open>a.inc\<close>, and
  \<open>b.inc\<close>, which exists nowhere, is not found and leaves \<open>ENOENT\<close>.
\<close>

theorem fstk_FindFile_search_witness:
  "fstk_AddIncludePath 16 256 ''inc'' zeroed = Inr (zeroed\<lparr>IncludePaths := [''inc/'']\<rparr>) \<and>
   (\<forall>n. realloc_ok two_copies n) \<and>
   found (fstk_FindFile two_copies (zeroed\<lparr>IncludePaths := [''inc/'']\<rparr>) ''a.inc'' None 0) \<and>
   fullPath (fstk_FindFile two_copies (zeroed\<lparr>IncludePaths := [''inc/'']\<rparr>) ''a.inc'' None 0)
     = Some ''a.inc'' \<and>
   \<not> found (fstk_FindFile two_copies (zeroed\<lparr>IncludePaths := [''inc/'']\<rparr>) ''b.inc'' None 0) \<and>
   errno (fstk_FindFile two_copies (zeroed\<lparr>IncludePaths := [''inc/'']\<rparr>) ''b.inc'' None 0)
     = Some ENOENT"
  using fstk_FindFile_search [where env = two_copies and path = "''a.inc''"
          and s = "zeroed\<lparr>IncludePaths := [''inc/'']\<rparr>"]
        fstk_FindFile_search [where env = two_copies and path = "''b.inc''"
          and s = "zeroed\<lparr>IncludePaths := [''inc/'']\<rparr>"]
  by (simp add: two_copies_def isPathValid_def fstk_AddIncludePath_def zeroed_def)

text \<open>
  C2, as the specification words it, fails: \<open>a.inc\<close> does not start with \<open>./\<close>, so by
  the specification's words the include paths decide and \<open>inc/a.inc\<close> is opened; the
  code opens \<open>a.inc\<close> of the current directory, which it tries before any include path.
\<close>

theorem fstk_FindFile_counterexample:
  "fullPath (fstk_FindFile two_copies (zeroed\<lparr>IncludePaths := [''inc/'']\<rparr>) ''a.inc'' None 0)
     = Some ''a.inc'' \<and>
   List.find (isPathValid two_copies) (spec_candidates [''inc/''] ''a.inc'') = Some ''inc/a.inc'' \<and>
   fullPath (fstk_FindFile two_copies (zeroed\<lparr>IncludePaths := [''inc/'']\<rparr>) ''a.inc'' None 0)
     \<noteq> List.find (isPathValid two_copies) (spec_candidates [''inc/''] ''a.inc'')"
  by (simp add: fstk_FindFile_def two_copies_def isPathValid_def spec_candidates_def zeroed_def
        printdep_def)

text \<open>
  What \<open>INCLUDE\<close> opens is the file that the search found, once the context is pushed
  and the lexer opens the file.
\<close>

lemma fstk_RunInclude_opens:
  assumes "fstk_RunInclude env lexer_OpenFile f s = Inr r"
  shows "opened r = (if found (fstk_FindFile env s f None 0)
                     then fullPath (fstk_FindFile env s f None 0) else None)"
  using assms
  by (auto simp: fstk_RunInclude_def Let_def split: if_splits sum.splits)

text \<open>
  The three places that push a context, an include, a macro call and a repeat block
  with a count that is not zero, all stop at the recursion limit.
\<close>

lemma push_sites_stop_at_limit:
  assumes "pushcontext s = Inl (RecursionLimitExceeded n)"
  shows "found (fstk_FindFile env s f None 0) \<Longrightarrow>
           fstk_RunInclude env lexer_OpenFile f s = Inl (RecursionLimitExceeded n)"
    and "sym_FindSymbol m = Some (h, True) \<Longrightarrow>
           fstk_RunMacro sym_FindSymbol m args s = Inl (RecursionLimitExceeded n)"
    and "count \<noteq> 0 \<Longrightarrow> fstk_RunRept count lineNo s = Inl (RecursionLimitExceeded n)"
  using assms by (simp_all add: fstk_RunInclude_def fstk_RunMacro_def fstk_RunRept_def)

section \<open>Properties of the overlay check\<close>

lemma banks_fit:
  assumes "n div BANK_SIZE < 2 ^ 32"
  shows "unat (of_nat (n div BANK_SIZE) :: 32 word) = n div BANK_SIZE"
  using assms by (simp add: unat_of_nat)

lemma two_banks: "(n::nat) mod 16384 = 0 \<Longrightarrow> (n div 16384 = 2) = (n = 32768)"
  by auto

lemma below_two_banks: "(n::nat) mod 16384 = 0 \<Longrightarrow> (n div 16384 < 2) = (n < 32768)"
  by auto

lemma checkOverlaySize_seekable:
  assumes "fileSize f div BANK_SIZE < 2 ^ 32" and "seekable f"
  shows "checkOverlaySize is32kMode (Some f) =
          (if fileSize f mod 0x4000 \<noteq> 0 then Errx NotMultipleOfBankSize
           else if is32kMode \<and> fileSize f \<noteq> 0x8000 then Errx NotExactly0x8000
           else if fileSize f < 0x8000 then Errx Below0x8000
           else Return False (of_nat (fileSize f div 0x4000)))"
proof -
  let ?q = "fileSize f div BANK_SIZE"
  have u: "unat (of_nat ?q :: 32 word) = ?q" by (rule banks_fit [OF assms(1)])
  have ne2: "(of_nat ?q = (2 :: 32 word)) = (?q = 2)"
    using u by (auto simp: word_unat_eq_iff)
  have lt2: "(of_nat ?q < (2 :: 32 word)) = (?q < 2)"
    using u by (simp add: word_less_nat_alt)
  show ?thesis
  proof (cases "fileSize f mod 16384 = 0")
    case False
    then show ?thesis using assms(2) by (simp add: checkOverlaySize_def BANK_SIZE_def)
  next
    case True
    have a: "(?q = 2) = (fileSize f = 32768)" "(?q < 2) = (fileSize f < 32768)"
      unfolding BANK_SIZE_def using two_banks [OF True] below_two_banks [OF True] by blast+
    have "checkOverlaySize is32kMode (Some f) =
           (if is32kMode \<and> of_nat ?q \<noteq> (2 :: 32 word) then Errx NotExactly0x8000
            else if of_nat ?q < (2 :: 32 word) then Errx Below0x8000
            else Return False (of_nat ?q))"
      using True assms(2) by (simp add: checkOverlaySize_def Let_def BANK_SIZE_def)
    then show ?thesis
      unfolding ne2 lt2 a using True by (simp add: BANK_SIZE_def)
  qed
qed


text \<open>
  C1, as the code has it. For every linker run whose overlay file is open and has a bank
  count that fits 32 bits: when the file is not seekable the check is skipped with a
  warning and returns 0; when it is seekable, a size that is not a multiple of 0x4000
  bytes or is below 0x8000 bytes ends the run with an error, and so does, in 32KiB mode,
  any size other than 0x8000 bytes; otherwise the check succeeds without a warning and
  returns the overlay's bank count.
\<close>

theorem checkOverlaySize_cases:
  assumes "fileSize f div BANK_SIZE < 2 ^ 32"
  shows "checkOverlaySize is32kMode (Some f) =
          (if \<not> seekable f then Return True 0
           else if fileSize f mod 0x4000 \<noteq> 0 then Errx NotMultipleOfBankSize
           else if is32kMode \<and> fileSize f \<noteq> 0x8000 then Errx NotExactly0x8000
           else if fileSize f < 0x8000 then Errx Below0x8000
           else Return False (of_nat (fileSize f div 0x4000)))
         \<and> unat (of_nat (fileSize f div 0x4000) :: 32 word) = fileSize f div 0x4000"
proof (cases "seekable f")
  case True
  then show ?thesis
    using checkOverlaySize_seekable [OF assms True] banks_fit [OF assms]
    by (simp add: BANK_SIZE_def)
next
  case False
  then show ?thesis
    using banks_fit [OF assms] by (simp add: checkOverlaySize_def BANK_SIZE_def)
qed

text \<open>
  Seekable overlays: 0x8000 bytes pass in 32KiB mode with 2 banks, 0xC000 bytes pass
  outside it with 3 banks and fail in it, 0x4000 bytes and 0x8001 bytes fail.
\<close>

theorem checkOverlaySize_cases_witness:
  "checkOverlaySize True (Some \<lparr>seekable = True, fileSize = 0x8000\<rparr>) = Return False 2 \<and>
   checkOverlaySize False (Some \<lparr>seekable = True, fileSize = 0xC000\<rparr>) = Return False 3 \<and>
   checkOverlaySize True (Some \<lparr>seekable = True, fileSize = 0xC000\<rparr>) = Errx NotExactly0x8000 \<and>
   checkOverlaySize False (Some \<lparr>seekable = True, fileSize = 0x4000\<rparr>) = Errx Below0x8000 \<and>
   checkOverlaySize False (Some \<lparr>seekable = True, fileSize = 0x8001\<rparr>)
     = Errx NotMultipleOfBankSize"
  using checkOverlaySize_cases [of "\<lparr>seekable = True, fileSize = 0x8000\<rparr>" True]
        checkOverlaySize_cases [of "\<lparr>seekable = True, fileSize = 0xC000\<rparr>" False]
        checkOverlaySize_cases [of "\<lparr>seekable = True, fileSize = 0xC000\<rparr>" True]
        checkOverlaySize_cases [of "\<lparr>seekable = True, fileSize = 0x4000\<rparr>" False]
        checkOverlaySize_cases [of "\<lparr>seekable = True, fileSize = 0x8001\<rparr>" False]
  by (simp add: BANK_SIZE_def)

text \<open>
  C1, as the specification words it, fails: an overlay of 5 bytes that is not seekable
  (a pipe) has a size that is no multiple of 0x4000 and is below 0x8000, and yet the check
  ends without an error: it warns and returns 0.
\<close>

theorem checkOverlaySize_counterexample:
  "(5::nat) mod 0x4000 \<noteq> 0 \<and> (5::nat) < 0x8000 \<and>
   checkOverlaySize False (Some \<lparr>seekable = False, fileSize = 5\<rparr>) = Return True 0 \<and>
   \<not> (\<exists>e. checkOverlaySize False (Some \<lparr>seekable = False, fileSize = 5\<rparr>) = Errx e)"
  by (simp add: checkOverlaySize_def)

section \<open>Properties of the grammar actions\<close>

text \<open>
  C5. For \<open>ld a, [n]\<close> with \<open>n\<close> the known constant \<open>$FF80\<close>: with the flag of the load
  optimisation on, the bytes emitted are \<open>F0 80\<close>; with the flag off they are
  \<open>FA 80 FF\<close>.  In general the action emits the high-page form, \<open>F0\<close> and the low byte of
  the value, exactly when the flag is on, the operand is known and its value is at least
  \<open>$FF00\<close>, and the absolute form, \<open>FA\<close> and the 16-bit operand, in every other case.
  The store \<open>ld [n], a\<close> chooses between \<open>E0\<close> and \<open>EA\<close> in the same way.
\<close>

theorem z80_ld_a_high_page:
  "bytes_of (z80_ld_a True w REG_A \<lparr>isKnown = True, val = 0xFF80\<rparr>) = [0xF0, 0x80] \<and>
   bytes_of (z80_ld_a False w REG_A \<lparr>isKnown = True, val = 0xFF80\<rparr>) = [0xFA, 0x80, 0xFF] \<and>
   (hd (calls (z80_ld_a opt w REG_A e)) = sect_AbsByte 0xF0)
     = (opt \<and> isKnown e \<and> 0xFF00 \<le> sint (val e)) \<and>
   calls (z80_ld_a opt w REG_A e) =
     (if opt \<and> isKnown e \<and> 0xFF00 \<le> sint (val e)
      then [sect_AbsByte 0xF0, sect_AbsByte (ucast (val e AND 0xFF)), rpn_Free e]
      else [sect_AbsByte 0xFA, sect_RelWord e 1]) \<and>
   calls (z80_ld_mem opt w e) =
     (if opt \<and> isKnown e \<and> 0xFF00 \<le> sint (val e)
      then [sect_AbsByte 0xE0, sect_AbsByte (ucast (val e AND 0xFF)), rpn_Free e]
      else [sect_AbsByte 0xEA, sect_RelWord e 1])"
  by (simp add: z80_ld_a_def z80_ld_mem_def bytes_of_def)

text \<open>
  C6. The state machine of conditional assembly, one level per open \<open>IF\<close>.
  \<open>IF c\<close> opens a level, in RUN when \<open>c\<close> is not zero and skipping to \<open>ELIF\<close> when it is.
  \<open>ELIF c\<close> and \<open>ELSE\<close> with no level open are fatal.  On a level that ran a branch,
  \<open>ELIF\<close> and \<open>ELSE\<close> are fatal when its \<open>ELSE\<close> was reached and skip to \<open>ENDC\<close>
  otherwise.  On a level that ran no branch, \<open>ELIF c\<close> does what \<open>IF c\<close> does on its
  level: RUN when \<open>c\<close> is not zero, skipping to \<open>ELIF\<close> when it is; and \<open>ELSE\<close> enters
  RUN and marks the \<open>ELSE\<close> as reached.  \<open>ENDC\<close> pops one level.
\<close>

theorem conditional_assembly_transitions:
  "if_action c l =
     Inr (l\<lparr>ifStack := \<lparr>ranIfBlock = (c \<noteq> 0), reachedElseBlock = False\<rparr> # ifStack l,
            mode := (if c \<noteq> 0 then mode l else LEXER_SKIP_TO_ELIF)\<rparr>) \<and>
   elif_action c (l\<lparr>ifStack := []\<rparr>) = Inl ELIFOutsideIF \<and>
   else_action (l\<lparr>ifStack := []\<rparr>) = Inl ELSEOutsideIF \<and>
   elif_action c (l\<lparr>ifStack := \<lparr>ranIfBlock = True, reachedElseBlock = True\<rparr> # es\<rparr>)
     = Inl ELIFAfterELSE \<and>
   else_action (l\<lparr>ifStack := \<lparr>ranIfBlock = True, reachedElseBlock = True\<rparr> # es\<rparr>)
     = Inl ELSEAfterELSE \<and>
   elif_action c (l\<lparr>ifStack := \<lparr>ranIfBlock = True, reachedElseBlock = False\<rparr> # es\<rparr>)
     = Inr (l\<lparr>ifStack := \<lparr>ranIfBlock = True, reachedElseBlock = False\<rparr> # es,
              mode := LEXER_SKIP_TO_ENDC\<rparr>) \<and>
   else_action (l\<lparr>ifStack := \<lparr>ranIfBlock = True, reachedElseBlock = False\<rparr> # es\<rparr>)
     = Inr (l\<lparr>ifStack := \<lparr>ranIfBlock = True, reachedElseBlock = False\<rparr> # es,
              mode := LEXER_SKIP_TO_ENDC\<rparr>) \<and>
   elif_action c (l\<lparr>ifStack := \<lparr>ranIfBlock = False, reachedElseBlock = r\<rparr> # es\<rparr>)
     = Inr (l\<lparr>ifStack := \<lparr>ranIfBlock = (c \<noteq> 0), reachedElseBlock = r\<rparr> # es,
              mode := (if c \<noteq> 0 then mode l else LEXER_SKIP_TO_ELIF)\<rparr>) \<and>
   else_action (l\<lparr>ifStack := \<lparr>ranIfBlock = False, reachedElseBlock = r\<rparr> # es\<rparr>)
     = Inr (l\<lparr>ifStack := \<lparr>ranIfBlock = True, reachedElseBlock = True\<rparr> # es\<rparr>) \<and>
   endc_action (l\<lparr>ifStack := e # es\<rparr>) = Inr (l\<lparr>ifStack := es\<rparr>)"
  by (simp add: if_action_def elif_action_def else_action_def endc_action_def
        lexer_GetIFDepth_def lexer_IncIFDepth_def lexer_DecIFDepth_def lexer_RanIFBlock_def
        lexer_ReachedELSEBlock_def lexer_RunIFBlock_def lexer_ReachELSEBlock_def
        lexer_SetMode_def)

section \<open>Properties of the string functions\<close>

lemma strlen_loop_acc:
  "strlen_loop dec s st cp n =
     (case strlen_loop dec s st cp 0 of (m, r) \<Rightarrow> (n + m, r))"
proof (induction s arbitrary: st cp n)
  case Nil
  show ?case by simp
next
  case (Cons c s)
  obtain st' cp' where d: "dec st cp (of_char c) = (st', cp')" by (cases "dec st cp (of_char c)")
  show ?case
    using Cons.IH [of 0 cp' "n + 1"] Cons.IH [of 0 cp' 1] Cons.IH [of st' cp' n]
    by (simp add: d split: prod.splits)
qed

lemma strlen_loop_count:
  "fst (strlen_loop dec s st cp n) = n + fst (strlen_loop dec s st cp 0)"
  by (subst strlen_loop_acc) (simp split: prod.splits)

lemma advance_no_warning:
  "advance dec s st cp p pos = (r, st', cp', p', ds) \<Longrightarrow> filter is_warning ds = []"
proof (induction s arbitrary: st cp p ds)
  case Nil
  then show ?case by simp
next
  case (Cons c s)
  obtain st1 cp1 where d: "dec st cp (of_char c) = (st1, cp1)" by (cases "dec st cp (of_char c)")
  show ?case
    using Cons.prems Cons.IH
    by (auto simp: d split: if_splits prod.splits)
qed

lemma copy_chars_no_warning:
  "copy_chars dec dl s st cp i n len = (d, st', n', ds) \<Longrightarrow> filter is_warning ds = []"
proof (induction s arbitrary: st cp i n d ds)
  case Nil
  then show ?case by simp
next
  case (Cons c s)
  obtain st1 cp1 where d: "dec st cp (of_char c) = (st1, cp1)" by (cases "dec st cp (of_char c)")
  show ?case
    using Cons.prems Cons.IH
    by (auto simp: d split: if_splits prod.splits)
qed

lemma strlen_loop_no_warning:
  "strlen_loop dec s st cp n = (m, st', ds) \<Longrightarrow> filter is_warning ds = []"
proof (induction s arbitrary: st cp n ds)
  case Nil
  then show ?case by simp
next
  case (Cons c s)
  obtain st1 cp1 where d: "dec st cp (of_char c) = (st1, cp1)" by (cases "dec st cp (of_char c)")
  show ?case
    using Cons.prems Cons.IH
    by (auto simp: d split: if_splits prod.splits)
qed

lemma advance_position:
  "advance dec s st cp p pos = (r, st', cp', p', ds) \<Longrightarrow> p \<le> pos \<Longrightarrow>
     p \<le> p' \<and> p' \<le> pos \<and> (r \<noteq> [] \<longrightarrow> p' = pos) \<and>
     fst (strlen_loop dec s st cp 0) = (p' - p) + fst (strlen_loop dec r st' cp' 0)"
proof (induction s arbitrary: st cp p ds)
  case Nil
  then show ?case by simp
next
  case (Cons c s)
  obtain st1 cp1 where d: "dec st cp (of_char c) = (st1, cp1)" by (cases "dec st cp (of_char c)")
  show ?case
  proof (cases "p < pos")
    case False
    then show ?thesis using Cons.prems by simp
  next
    case True
    consider (rej) "st1 = 1" | (acc) "st1 = 0" | (mid) "st1 \<noteq> 1" "st1 \<noteq> 0" by blast
    then show ?thesis
    proof cases
      case rej
      obtain ds' where a: "advance dec s 0 cp1 (p + 1) pos = (r, st', cp', p', ds')"
        using Cons.prems(1) True rej by (auto simp: d split: prod.splits)
      have ih: "p + 1 \<le> p' \<and> p' \<le> pos \<and> (r \<noteq> [] \<longrightarrow> p' = pos) \<and>
          fst (strlen_loop dec s 0 cp1 0) = (p' - (p + 1)) + fst (strlen_loop dec r st' cp' 0)"
        using Cons.IH [OF a] True by simp
      have "fst (strlen_loop dec (c # s) st cp 0) = 1 + fst (strlen_loop dec s 0 cp1 0)"
        using rej strlen_loop_count [of dec s 0 cp1 1] by (auto simp: d split: prod.splits)
      then show ?thesis using ih by arith
    next
      case acc
      have a: "advance dec s 0 cp1 (p + 1) pos = (r, st', cp', p', ds)"
        using Cons.prems(1) True acc by (simp add: d)
      have ih: "p + 1 \<le> p' \<and> p' \<le> pos \<and> (r \<noteq> [] \<longrightarrow> p' = pos) \<and>
          fst (strlen_loop dec s 0 cp1 0) = (p' - (p + 1)) + fst (strlen_loop dec r st' cp' 0)"
        using Cons.IH [OF a] True by simp
      have "fst (strlen_loop dec (c # s) st cp 0) = 1 + fst (strlen_loop dec s 0 cp1 0)"
        using acc strlen_loop_count [of dec s 0 cp1 1] by (simp add: d)
      then show ?thesis using ih by arith
    next
      case mid
      have a: "advance dec s st1 cp1 p pos = (r, st', cp', p', ds)"
        using Cons.prems(1) True mid by (simp add: d)
      have "fst (strlen_loop dec (c # s) st cp 0) = fst (strlen_loop dec s st1 cp1 0)"
        using mid by (simp add: d)
      then show ?thesis using Cons.IH [OF a Cons.prems(2)] by (simp del: strlen_loop.simps)
    qed
  qed
qed

lemma copy_chars_count:
  "copy_chars dec dl s st cp i n len = (d, st', n', ds) \<Longrightarrow> i + length s < dl \<Longrightarrow> n \<le> len \<Longrightarrow>
     n' = min len (n + fst (strlen_loop dec s st cp 0))"
proof (induction s arbitrary: st cp i n d ds)
  case Nil
  then show ?case by simp
next
  case (Cons c s)
  obtain st1 cp1 where dd: "dec st cp (of_char c) = (st1, cp1)" by (cases "dec st cp (of_char c)")
  have room: "i < dl - 1" "(i + 1) + length s < dl" using Cons.prems(2) by simp_all
  show ?case
  proof (cases "n < len")
    case False
    then show ?thesis using Cons.prems by simp
  next
    case True
    consider (rej) "st1 = 1" | (acc) "st1 = 0" | (mid) "st1 \<noteq> 1" "st1 \<noteq> 0" by blast
    then show ?thesis
    proof cases
      case rej
      obtain d' ds' where a: "copy_chars dec dl s 0 cp1 (i + 1) (n + 1) len = (d', st', n', ds')"
        using Cons.prems(1) True room rej by (auto simp: dd split: prod.splits)
      have "fst (strlen_loop dec (c # s) st cp 0) = 1 + fst (strlen_loop dec s 0 cp1 0)"
        using rej strlen_loop_count [of dec s 0 cp1 1] by (auto simp: dd split: prod.splits)
      then show ?thesis using Cons.IH [OF a room(2)] True by (simp del: strlen_loop.simps)
    next
      case acc
      obtain d' where a: "copy_chars dec dl s 0 cp1 (i + 1) (n + 1) len = (d', st', n', ds)"
        using Cons.prems(1) True room acc by (auto simp: dd split: prod.splits)
      have "fst (strlen_loop dec (c # s) st cp 0) = 1 + fst (strlen_loop dec s 0 cp1 0)"
        using acc strlen_loop_count [of dec s 0 cp1 1] by (simp add: dd)
      then show ?thesis using Cons.IH [OF a room(2)] True by (simp del: strlen_loop.simps)
    next
      case mid
      obtain d' where a: "copy_chars dec dl s st1 cp1 (i + 1) n len = (d', st', n', ds)"
        using Cons.prems(1) True room mid by (auto simp: dd split: prod.splits)
      have "fst (strlen_loop dec (c # s) st cp 0) = fst (strlen_loop dec s st1 cp1 0)"
        using mid by (simp add: dd)
      then show ?thesis using Cons.IH [OF a room(2) Cons.prems(3)] by (simp del: strlen_loop.simps)
    qed
  qed
qed

lemma advance_suffix:
  "advance dec s st cp p pos = (r, st', cp', p', ds) \<Longrightarrow> length r \<le> length s"
proof (induction s arbitrary: st cp p ds)
  case Nil
  then show ?case by simp
next
  case (Cons c s)
  obtain st1 cp1 where d: "dec st cp (of_char c) = (st1, cp1)" by (cases "dec st cp (of_char c)")
  show ?case
    using Cons.prems Cons.IH
    by (fastforce simp: d split: if_splits prod.splits)
qed

lemma strsubUTF8_warnings:
  assumes "length src < destLen" and "1 \<le> pos"
  shows "warnings (strsubUTF8 dec destLen src pos len) =
           (if pos > fst (strlenUTF8 dec src) + 1 then [WarnPositionPastEnd pos] else []) @
           (if len > fst (strlenUTF8 dec src) + 1 - pos then [WarnLengthTooBig len] else [])"
proof -
  let ?L = "fst (strlen_loop dec src 0 0 0)"
  have L: "fst (strlenUTF8 dec src) = ?L"
    by (simp add: strlenUTF8_def split: prod.splits)
  obtain r st cp p ds1 where a: "advance dec src 0 0 1 pos = (r, st, cp, p, ds1)"
    by (metis prod_cases5)
  obtain d st' n ds2 where c: "copy_chars dec destLen r st cp 0 0 len = (d, st', n, ds2)"
    by (metis prod_cases4)
  have pa: "1 \<le> p \<and> p \<le> pos \<and> (r \<noteq> [] \<longrightarrow> p = pos) \<and>
            ?L = (p - 1) + fst (strlen_loop dec r st cp 0)"
    using advance_position [OF a assms(2)] .
  have "0 + length r < destLen" using advance_suffix [OF a] assms(1) by simp
  then have n: "n = min len (0 + fst (strlen_loop dec r st cp 0))"
    using copy_chars_count [OF c] by simp
  have w: "warnings (strsubUTF8 dec destLen src pos len) =
           (if r = [] \<and> pos > p then [WarnPositionPastEnd pos] else []) @
           (if n < len then [WarnLengthTooBig len] else [])"
    using advance_no_warning [OF a] copy_chars_no_warning [OF c]
    unfolding warnings_def strsubUTF8_def a c prod.case Let_def snd_conv
    by simp
  show ?thesis
  proof (cases "r = []")
    case True
    then have "?L + 1 = p" using pa by simp
    moreover have "n = 0" using n True by simp
    ultimately show ?thesis unfolding w L using True pa by auto
  next
    case False
    then have "p = pos" using pa by simp
    then have "fst (strlen_loop dec r st cp 0) = ?L + 1 - pos" "pos \<le> ?L + 1"
      using pa by simp_all
    then show ?thesis unfolding w L using False n by auto
  qed
qed


lemma strlen_loop_le: "fst (strlen_loop dec s st cp 0) \<le> length s"
proof (induction s arbitrary: st cp)
  case Nil
  show ?case by simp
next
  case (Cons c s)
  obtain st1 cp1 where d: "dec st cp (of_char c) = (st1, cp1)" by (cases "dec st cp (of_char c)")
  show ?case
    using Cons.IH [of 0 cp1] Cons.IH [of st1 cp1] strlen_loop_count [of dec s 0 cp1 1]
    by (auto simp: d split: prod.splits)
qed

lemma sint_of_int_32:
  assumes "- (2 ^ 31) \<le> k" and "k < 2 ^ 31"
  shows "sint (word_of_int k :: 32 word) = k"
  using assms by (simp add: sint_sbintrunc' signed_take_bit_int_eq_self)

lemma unat_of_sint_32:
  assumes "0 \<le> sint (w :: 32 word)"
  shows "unat w = nat (sint w)"
proof -
  have "sint w < 2 ^ 31" using sint_lt [of w] by simp
  then have "take_bit 32 (sint w) = sint w"
    using assms by (simp add: take_bit_int_eq_self)
  then have "uint w = sint w" using uint_sint [of w] by simp
  then show ?thesis using unat_eq_nat_uint [of w] by (simp only:)
qed

lemma adjustNegativePos_value:
  assumes "L < 2 ^ 31 - 1"
  shows "adjustNegativePos p L f =
          (let q = (if sint p < 0 then sint p + int L + 1 else sint p)
           in if q < 1 then (1, [WarnPositionStartsAt1 f]) else (nat q, []))"
proof (cases "sint p < 0")
  case False
  then show ?thesis
    using unat_of_sint_32 [of p] by (simp add: adjustNegativePos_def)
next
  case True
  let ?k = "sint p + int L + 1"
  have eq: "p + of_nat L + 1 = (word_of_int ?k :: 32 word)" by simp
  have lo: "- (2 ^ 31) \<le> ?k" using sint_ge [of p] by simp
  have hi: "?k < 2 ^ 31" using True assms by simp
  have s: "sint (p + of_nat L + 1) = ?k"
    unfolding eq by (rule sint_of_int_32 [OF lo hi])
  show ?thesis
    using True s unat_of_sint_32 [of "p + of_nat L + 1"]
    by (simp add: adjustNegativePos_def Let_def)
qed

text \<open>
  C7, as the code has it. For every \<open>STRSUB\<close> call on a string of \<open>L\<close> characters that
  fits its buffer, with position \<open>p\<close> and requested length \<open>n\<close>: a negative \<open>p\<close> counts
  from the end (\<open>p + L + 1\<close>); a position below 1 is warned about and taken as 1; a
  warning that the position is past the end is emitted exactly when the position is
  greater than \<open>L + 1\<close>, whatever \<open>n\<close> is; a warning that the length is too big is
  emitted exactly when \<open>n\<close> is greater than the number of characters from the position
  to the end, \<open>L + 1\<close> minus the position, or zero beyond it.  There is no other warning:
  the call is silent exactly when none of the three applies, and in particular for
  \<open>n = 0\<close> at \<open>p = L + 1\<close>.
\<close>

theorem STRSUB_warnings:
  assumes "length s < destLen" and "length s < 2 ^ 31 - 1"
  shows "warnings (STRSUB dec destLen s p n) =
          (let L = fst (strlenUTF8 dec s);
               q = (if sint p < 0 then sint p + int L + 1 else sint p);
               pos = (if q < 1 then 1 else nat q)
           in (if q < 1 then [WarnPositionStartsAt1 ''STRSUB''] else []) @
              (if pos > L + 1 then [WarnPositionPastEnd pos] else []) @
              (if n > L + 1 - pos then [WarnLengthTooBig n] else []))"
proof -
  obtain L ds1 where l: "strlenUTF8 dec s = (L, ds1)" by (cases "strlenUTF8 dec s")
  obtain L' st' ds' where ll: "strlen_loop dec s 0 0 0 = (L', st', ds')"
    by (metis prod_cases3)
  have L: "L = fst (strlen_loop dec s 0 0 0)" and nw1: "filter is_warning ds1 = []"
    using l strlen_loop_no_warning [OF ll] by (auto simp: strlenUTF8_def ll)
  have "L \<le> length s" unfolding L by (rule strlen_loop_le)
  then have small: "L < 2 ^ 31 - 1" using assms(2) by simp
  let ?q = "if sint p < 0 then sint p + int L + 1 else sint p"
  let ?pos = "if ?q < 1 then 1 else nat ?q"
  have adj: "adjustNegativePos p L ''STRSUB'' =
             (?pos, if ?q < 1 then [WarnPositionStartsAt1 ''STRSUB''] else [])"
    using adjustNegativePos_value [OF small, of p "''STRSUB''"] by (simp add: Let_def)
  have pos1: "1 \<le> ?pos" by auto
  obtain dest ds3 where sub: "strsubUTF8 dec destLen s ?pos n = (dest, ds3)"
    by (cases "strsubUTF8 dec destLen s ?pos n")
  have w3: "filter is_warning ds3 =
             (if ?pos > L + 1 then [WarnPositionPastEnd ?pos] else []) @
             (if n > L + 1 - ?pos then [WarnLengthTooBig n] else [])"
    using strsubUTF8_warnings [OF assms(1) pos1, of dec n]
    unfolding warnings_def sub l by simp
  have "warnings (STRSUB dec destLen s p n) =
          filter is_warning ds1 @
          filter is_warning (if ?q < 1 then [WarnPositionStartsAt1 ''STRSUB''] else []) @
          filter is_warning ds3"
    unfolding warnings_def STRSUB_def l adj sub prod.case snd_conv by simp
  then show ?thesis
    unfolding nw1 w3 l fst_conv Let_def by simp
qed

text \<open>
  On \<open>abc\<close> (three characters) with the decoder of the assembler: the slice of length 0
  at position 4 is silent; length 1 at position 4 warns about the length; length 0 at
  position 5 warns about the position; position 0 is warned about and taken as 1.
\<close>

theorem STRSUB_warnings_witness:
  "length ''abc'' < (256::nat) \<and>
   fst (strlenUTF8 decode ''abc'') = 3 \<and>
   warnings (STRSUB decode 256 ''abc'' 4 0) = [] \<and>
   warnings (STRSUB decode 256 ''abc'' 4 1) = [WarnLengthTooBig 1] \<and>
   warnings (STRSUB decode 256 ''abc'' 5 0) = [WarnPositionPastEnd 5] \<and>
   warnings (STRSUB decode 256 ''abc'' 0 1) = [WarnPositionStartsAt1 ''STRSUB'']"
proof -
  have L: "fst (strlenUTF8 decode ''abc'') = 3"
    by (simp add: strlenUTF8_def decode_def byte_class_def transitions_def)
  have a: "length ''abc'' < (256::nat)" and b: "length ''abc'' < (2::nat) ^ 31 - 1" by simp_all
  show ?thesis
    using STRSUB_warnings [OF a b, of decode 4 0] STRSUB_warnings [OF a b, of decode 4 1]
          STRSUB_warnings [OF a b, of decode 5 0] STRSUB_warnings [OF a b, of decode 0 1]
    by (simp add: L)
qed

text \<open>
  C7, as the specification words it, fails: on \<open>abc\<close>, \<open>L = 3\<close>; at \<open>p = 4 = L + 1\<close> with
  \<open>n = 1\<close> the position is not greater than \<open>L + 1\<close>, so no warning is due by the
  specification's words, and the code warns that the length is too big; at \<open>p = 5\<close> with
  \<open>n = 0\<close> the length is not positive, so no warning is due, and the code warns that the
  position is past the end.
\<close>

theorem STRSUB_counterexample:
  "fst (strlenUTF8 decode ''abc'') = 3 \<and>
   \<not> ((1::nat) > 0 \<and> (4::nat) > 3 + 1) \<and>
   warnings (STRSUB decode 256 ''abc'' 4 1) = [WarnLengthTooBig 1] \<and>
   \<not> ((0::nat) > 0 \<and> (5::nat) > 3 + 1) \<and>
   warnings (STRSUB decode 256 ''abc'' 5 0) = [WarnPositionPastEnd 5]"
  by (simp add: warnings_def STRSUB_def strlenUTF8_def strsubUTF8_def adjustNegativePos_def
        decode_def byte_class_def transitions_def)

section \<open>Properties of the placed sections\<close>

lemma set_insert_by_org: "set (insert_by_org s xs) = insert s (set xs)"
  by (induction xs) auto

lemma sorted_insert_by_org:
  "sorted_wrt (\<lambda>x y. org x \<le> org y) xs \<Longrightarrow>
   sorted_wrt (\<lambda>x y. org x \<le> org y) (insert_by_org s xs)"
  by (induction xs) (auto simp: set_insert_by_org)

lemma disjoint_insert_by_org:
  "sorted_wrt (\<lambda>x y. \<not> overlaps x y \<and> \<not> overlaps y x) xs \<Longrightarrow>
   \<forall>x \<in> set xs. \<not> overlaps x s \<Longrightarrow>
   sorted_wrt (\<lambda>x y. \<not> overlaps x y \<and> \<not> overlaps y x) (insert_by_org s xs)"
  by (induction xs) (auto simp: set_insert_by_org overlaps_def)

lemma overlaps_sym: "overlaps x y = overlaps y x"
  by (auto simp: overlaps_def)


lemma out_AddSection_result:
  assumes "out_AddSection fb secs s = Inr secs'"
  shows "\<exists>banks b.
           set banks \<subseteq> insert \<lparr>sections = [], zeroLenSections = []\<rparr> (set (secs (sect_type s))) \<and>
           unat (bank s - fb (sect_type s)) < length banks \<and>
           b = (if unat (bank s - fb (sect_type s)) < length (secs (sect_type s))
                then secs (sect_type s) ! unat (bank s - fb (sect_type s))
                else \<lparr>sections = [], zeroLenSections = []\<rparr>) \<and>
           secs' = secs(sect_type s :=
                     banks[unat (bank s - fb (sect_type s)) :=
                       (if sect_size s \<noteq> 0
                        then b\<lparr>sections := insert_by_org s (sections b)\<rparr>
                        else b\<lparr>zeroLenSections := insert_by_org s (zeroLenSections b)\<rparr>)])"
proof -
  let ?ty = "sect_type s"
  let ?i = "unat (bank s - fb ?ty)"
  let ?e = "\<lparr>sections = [], zeroLenSections = []\<rparr>"
  let ?banks = "secs ?ty @ replicate (unat (bank s - fb ?ty + 1) - length (secs ?ty)) ?e"
  have ok: "\<not> (bank s - fb ?ty + 1 > maxNbBanks ?ty)" "?i < length ?banks"
    using assms unfolding out_AddSection_def Let_def by (auto split: if_splits)
  have res: "secs' = secs(?ty := ?banks[?i :=
                       (if sect_size s \<noteq> 0
                        then (?banks ! ?i)\<lparr>sections := insert_by_org s (sections (?banks ! ?i))\<rparr>
                        else (?banks ! ?i)\<lparr>zeroLenSections :=
                               insert_by_org s (zeroLenSections (?banks ! ?i))\<rparr>)])"
    using assms ok unfolding out_AddSection_def Let_def by (auto split: if_splits)
  have sub: "set ?banks \<subseteq> insert ?e (set (secs ?ty))" by auto
  have b: "?banks ! ?i = (if ?i < length (secs ?ty) then secs ?ty ! ?i else ?e)"
    using ok(2) by (auto simp: nth_append)
  show ?thesis
    using sub ok(2) b res by metis
qed

lemma bank_sorted_empty: "bank_sorted \<lparr>sections = [], zeroLenSections = []\<rparr>"
  by (simp add: bank_sorted_def)

lemma bank_disjoint_empty: "bank_disjoint \<lparr>sections = [], zeroLenSections = []\<rparr>"
  by (simp add: bank_disjoint_def)

lemma bank_sorted_insert:
  "bank_sorted b \<Longrightarrow>
   bank_sorted (if sect_size s \<noteq> 0
                then b\<lparr>sections := insert_by_org s (sections b)\<rparr>
                else b\<lparr>zeroLenSections := insert_by_org s (zeroLenSections b)\<rparr>)"
  by (auto simp: bank_sorted_def sorted_insert_by_org list_all_iff set_insert_by_org)

lemma bank_disjoint_insert:
  "bank_disjoint b \<Longrightarrow>
   sect_size s \<noteq> 0 \<longrightarrow> find (\<lambda>ptr. overlaps ptr s) (sections b) = None \<Longrightarrow>
   bank_disjoint (if sect_size s \<noteq> 0
                  then b\<lparr>sections := insert_by_org s (sections b)\<rparr>
                  else b\<lparr>zeroLenSections := insert_by_org s (zeroLenSections b)\<rparr>)"
  by (auto simp: bank_disjoint_def find_None_iff intro: disjoint_insert_by_org)

lemma nth_mem_or_empty:
  "(if i < length xs then xs ! i else e) \<in> insert e (set xs)"
  by simp

lemma out_AddSection_sorted:
  assumes "out_AddSection fb secs s = Inr secs'" and "\<forall>t. \<forall>b \<in> set (secs t). bank_sorted b"
  shows "\<forall>t. \<forall>b \<in> set (secs' t). bank_sorted b"
proof -
  obtain banks b where
    sub: "set banks \<subseteq> insert \<lparr>sections = [], zeroLenSections = []\<rparr> (set (secs (sect_type s)))"
    and b: "b = (if unat (bank s - fb (sect_type s)) < length (secs (sect_type s))
                then secs (sect_type s) ! unat (bank s - fb (sect_type s))
                else \<lparr>sections = [], zeroLenSections = []\<rparr>)"
    and res: "secs' = secs(sect_type s :=
                     banks[unat (bank s - fb (sect_type s)) :=
                       (if sect_size s \<noteq> 0
                        then b\<lparr>sections := insert_by_org s (sections b)\<rparr>
                        else b\<lparr>zeroLenSections := insert_by_org s (zeroLenSections b)\<rparr>)])"
    using out_AddSection_result [OF assms(1)] by blast
  have old: "\<forall>x \<in> set banks. bank_sorted x"
    using sub assms(2) bank_sorted_empty by blast
  have "b \<in> insert \<lparr>sections = [], zeroLenSections = []\<rparr> (set (secs (sect_type s)))"
    unfolding b by (rule nth_mem_or_empty)
  then have "bank_sorted b" using assms(2) bank_sorted_empty by blast
  then have new: "bank_sorted (if sect_size s \<noteq> 0
                        then b\<lparr>sections := insert_by_org s (sections b)\<rparr>
                        else b\<lparr>zeroLenSections := insert_by_org s (zeroLenSections b)\<rparr>)"
    by (rule bank_sorted_insert)
  show ?thesis
  proof (intro allI ballI)
    fix t x assume x: "x \<in> set (secs' t)"
    show "bank_sorted x"
    proof (cases "t = sect_type s")
      case False
      then show ?thesis using x assms(2) by (simp add: res)
    next
      case True
      then have "x \<in> insert (if sect_size s \<noteq> 0
                        then b\<lparr>sections := insert_by_org s (sections b)\<rparr>
                        else b\<lparr>zeroLenSections := insert_by_org s (zeroLenSections b)\<rparr>)
                     (set banks)"
        using x set_update_subset_insert unfolding res by fastforce
      then show ?thesis using old new by blast
    qed
  qed
qed

lemma out_AddSection_disjoint:
  assumes "out_AddSection fb secs s = Inr secs'" and "\<forall>t. \<forall>b \<in> set (secs t). bank_disjoint b"
    and "clear_to_add fb secs s"
  shows "\<forall>t. \<forall>b \<in> set (secs' t). bank_disjoint b"
proof -
  obtain banks b where
    sub: "set banks \<subseteq> insert \<lparr>sections = [], zeroLenSections = []\<rparr> (set (secs (sect_type s)))"
    and b: "b = (if unat (bank s - fb (sect_type s)) < length (secs (sect_type s))
                then secs (sect_type s) ! unat (bank s - fb (sect_type s))
                else \<lparr>sections = [], zeroLenSections = []\<rparr>)"
    and res: "secs' = secs(sect_type s :=
                     banks[unat (bank s - fb (sect_type s)) :=
                       (if sect_size s \<noteq> 0
                        then b\<lparr>sections := insert_by_org s (sections b)\<rparr>
                        else b\<lparr>zeroLenSections := insert_by_org s (zeroLenSections b)\<rparr>)])"
    using out_AddSection_result [OF assms(1)] by blast
  have old: "\<forall>x \<in> set banks. bank_disjoint x"
    using sub assms(2) bank_disjoint_empty by blast
  have "b \<in> insert \<lparr>sections = [], zeroLenSections = []\<rparr> (set (secs (sect_type s)))"
    unfolding b by (rule nth_mem_or_empty)
  then have bd: "bank_disjoint b" using assms(2) bank_disjoint_empty by blast
  have clear: "sect_size s \<noteq> 0 \<longrightarrow> find (\<lambda>ptr. overlaps ptr s) (sections b) = None"
    using assms(3) unfolding clear_to_add_def out_OverlappingSection_def Let_def b
    by (auto split: if_splits option.splits)
  have new: "bank_disjoint (if sect_size s \<noteq> 0
                        then b\<lparr>sections := insert_by_org s (sections b)\<rparr>
                        else b\<lparr>zeroLenSections := insert_by_org s (zeroLenSections b)\<rparr>)"
    using bd clear by (rule bank_disjoint_insert)
  show ?thesis
  proof (intro allI ballI)
    fix t x assume x: "x \<in> set (secs' t)"
    show "bank_disjoint x"
    proof (cases "t = sect_type s")
      case False
      then show ?thesis using x assms(2) by (simp add: res)
    next
      case True
      then have "x \<in> insert (if sect_size s \<noteq> 0
                        then b\<lparr>sections := insert_by_org s (sections b)\<rparr>
                        else b\<lparr>zeroLenSections := insert_by_org s (zeroLenSections b)\<rparr>)
                     (set banks)"
        using x set_update_subset_insert unfolding res by fastforce
      then show ?thesis using old new by blast
    qed
  qed
qed


text \<open>
  After any sequence of \<open>out_AddSection\<close> calls, checked or not, both lists of every bank
  are in increasing order of origin, the first with the sections of nonzero size and the
  second with those of size zero.
\<close>

lemma adds_sorted: "adds fb secs \<Longrightarrow> \<forall>t. \<forall>b \<in> set (secs t). bank_sorted b"
proof (induction rule: adds.induct)
  case none
  show ?case by simp
next
  case (one_more secs s secs')
  show ?case by (rule out_AddSection_sorted [OF one_more.hyps(2) one_more.IH])
qed

lemma checked_adds_inv:
  "checked_adds fb secs \<Longrightarrow> \<forall>t. \<forall>b \<in> set (secs t). bank_sorted b \<and> bank_disjoint b"
proof (induction rule: checked_adds.induct)
  case nothing
  show ?case by simp
next
  case (added secs s secs')
  have s: "\<forall>t. \<forall>b \<in> set (secs' t). bank_sorted b"
    using out_AddSection_sorted [OF added.hyps(3)] added.IH by blast
  have d: "\<forall>t. \<forall>b \<in> set (secs' t). bank_disjoint b"
    using out_AddSection_disjoint [OF added.hyps(3) _ added.hyps(2)] added.IH by blast
  show ?case using s d by blast
qed

lemma apart_in_order:
  assumes "org x \<le> org y" and "sect_size y \<noteq> 0" and "\<not> overlaps x y"
  shows "uint (org x) + uint (sect_size x) \<le> uint (org y)"
proof -
  have "uint (org x) \<le> uint (org y)" using assms(1) by (simp add: word_le_def)
  moreover have "0 < uint (sect_size y)"
    using assms(2) by (simp add: word_neq_0_conv word_less_def)
  ultimately show ?thesis using assms(3) unfolding overlaps_def by linarith
qed

text \<open>
  C8, as the code has it. After every sequence of \<open>out_AddSection\<close> calls in which each
  section of nonzero size was added only when \<open>out_OverlappingSection\<close> had no section
  to report for it, the sections of nonzero size of one type and bank lie one after the
  other: each ends at or before the origin of the next, so any two occupy disjoint
  intervals \<open>[org, org + size)\<close>.  Sections of size zero are kept in a list of their own,
  which \<open>out_OverlappingSection\<close> does not search: what it reports is a section of
  nonzero size that overlaps the one asked about.  Both lists are in increasing order of
  origin.
\<close>

theorem checked_adds_disjoint:
  assumes "checked_adds fb secs" and "b \<in> set (secs t)"
  shows "(\<forall>i j. i < j \<and> j < length (sections b) \<longrightarrow>
            uint (org (sections b ! i)) + uint (sect_size (sections b ! i))
              \<le> uint (org (sections b ! j))) \<and>
         list_all (\<lambda>x. sect_size x \<noteq> 0) (sections b) \<and>
         list_all (\<lambda>x. sect_size x = 0) (zeroLenSections b) \<and>
         sorted_wrt (\<lambda>x y. org x \<le> org y) (sections b) \<and>
         sorted_wrt (\<lambda>x y. org x \<le> org y) (zeroLenSections b) \<and>
         (\<forall>s p. out_OverlappingSection fb secs s = Inr (Some p) \<longrightarrow>
                sect_size p \<noteq> 0 \<and> overlaps p s)"
proof -
  have inv: "\<forall>t. \<forall>b \<in> set (secs t). bank_sorted b \<and> bank_disjoint b"
    by (rule checked_adds_inv [OF assms(1)])
  then have bs: "bank_sorted b" and bd: "bank_disjoint b" using assms(2) by blast+
  have order: "uint (org (sections b ! i)) + uint (sect_size (sections b ! i))
                 \<le> uint (org (sections b ! j))"
    if "i < j" and "j < length (sections b)" for i j
  proof -
    have "org (sections b ! i) \<le> org (sections b ! j)"
      using bs that unfolding bank_sorted_def by (simp add: sorted_wrt_iff_nth_less)
    moreover have "sect_size (sections b ! j) \<noteq> 0"
      using bs that unfolding bank_sorted_def by (simp add: list_all_length)
    moreover have "\<not> overlaps (sections b ! i) (sections b ! j)"
      using bd that unfolding bank_disjoint_def by (simp add: sorted_wrt_iff_nth_less)
    ultimately show ?thesis by (rule apart_in_order)
  qed
  have report: "sect_size p \<noteq> 0 \<and> overlaps p s"
    if "out_OverlappingSection fb secs s = Inr (Some p)" for s p
  proof -
    let ?i = "unat (bank s - fb (sect_type s))"
    have i: "?i < length (secs (sect_type s))"
      and f: "find (\<lambda>ptr. overlaps ptr s) (sections (secs (sect_type s) ! ?i)) = Some p"
      using that unfolding out_OverlappingSection_def Let_def by (auto split: if_splits)
    have "secs (sect_type s) ! ?i \<in> set (secs (sect_type s))" using i by simp
    then have "bank_sorted (secs (sect_type s) ! ?i)" using inv by blast
    moreover have "p \<in> set (sections (secs (sect_type s) ! ?i))" and "overlaps p s"
      using f by (auto simp: find_Some_iff)
    ultimately show ?thesis unfolding bank_sorted_def by (auto simp: list_all_iff)
  qed
  show ?thesis
    using order report bs unfolding bank_sorted_def by blast
qed

text \<open>
  Two sections of ROM0, \<open>A\<close> at \<open>$0000\<close> and \<open>B\<close> at \<open>$0002\<close>, two bytes each, added in
  this order after a clean check each: \<open>A\<close> ends where \<open>B\<close> starts.
\<close>

theorem checked_adds_disjoint_witness:
  "checked_adds usual_firstBank
     ((\<lambda>t. [])(SECTTYPE_ROM0 :=
        [\<lparr>sections = [Section ''A'' SECTTYPE_ROM0 0 0 2 [] None,
                      Section ''B'' SECTTYPE_ROM0 0 2 2 [] None],
          zeroLenSections = []\<rparr>])) \<and>
   uint (org (Section ''A'' SECTTYPE_ROM0 0 0 2 [] None)) +
   uint (sect_size (Section ''A'' SECTTYPE_ROM0 0 0 2 [] None))
     \<le> uint (org (Section ''B'' SECTTYPE_ROM0 0 2 2 [] None))"
proof -
  let ?A = "Section ''A'' SECTTYPE_ROM0 0 0 2 [] None"
  let ?B = "Section ''B'' SECTTYPE_ROM0 0 2 2 [] None"
  let ?S1 = "(\<lambda>t. [])(SECTTYPE_ROM0 := [\<lparr>sections = [?A], zeroLenSections = []\<rparr>])"
  let ?bk = "\<lparr>sections = [?A, ?B], zeroLenSections = []\<rparr>"
  let ?S2 = "(\<lambda>t. [])(SECTTYPE_ROM0 := [?bk])"
  have a1: "out_AddSection usual_firstBank (\<lambda>t. []) ?A = Inr ?S1"
    by (simp add: out_AddSection_def usual_firstBank_def maxNbBanks_def)
  have c1: "clear_to_add usual_firstBank (\<lambda>t. []) ?A"
    by (simp add: clear_to_add_def out_OverlappingSection_def)
  have a2: "out_AddSection usual_firstBank ?S1 ?B = Inr ?S2"
    by (simp add: out_AddSection_def usual_firstBank_def maxNbBanks_def)
  have c2: "clear_to_add usual_firstBank ?S1 ?B"
    by (simp add: clear_to_add_def out_OverlappingSection_def usual_firstBank_def
          overlaps_def)
  have r: "checked_adds usual_firstBank ?S2"
    by (rule checked_adds.added [OF checked_adds.added [OF checked_adds.nothing c1 a1] c2 a2])
  have m: "?bk \<in> set (?S2 SECTTYPE_ROM0)" by simp
  show ?thesis
    using r checked_adds_disjoint [OF r m] by (auto dest: spec [of _ 0])
qed

text \<open>
  C8, as the specification words it, fails: \<open>out_AddSection\<close> makes no check of its own.
  It accepts \<open>A\<close> at \<open>$0000\<close> and then \<open>B\<close> at \<open>$0001\<close>, two bytes each, in the same bank
  of ROM0, and the two overlap in the byte at \<open>$0001\<close>.
\<close>

theorem out_AddSection_counterexample:
  "out_AddSection usual_firstBank (\<lambda>t. []) (Section ''A'' SECTTYPE_ROM0 0 0 2 [] None) =
     Inr ((\<lambda>t. [])(SECTTYPE_ROM0 :=
        [\<lparr>sections = [Section ''A'' SECTTYPE_ROM0 0 0 2 [] None], zeroLenSections = []\<rparr>])) \<and>
   out_AddSection usual_firstBank
     ((\<lambda>t. [])(SECTTYPE_ROM0 :=
        [\<lparr>sections = [Section ''A'' SECTTYPE_ROM0 0 0 2 [] None], zeroLenSections = []\<rparr>]))
     (Section ''B'' SECTTYPE_ROM0 0 1 2 [] None) =
     Inr ((\<lambda>t. [])(SECTTYPE_ROM0 :=
        [\<lparr>sections = [Section ''A'' SECTTYPE_ROM0 0 0 2 [] None,
                      Section ''B'' SECTTYPE_ROM0 0 1 2 [] None],
          zeroLenSections = []\<rparr>])) \<and>
   overlaps (Section ''A'' SECTTYPE_ROM0 0 0 2 [] None)
            (Section ''B'' SECTTYPE_ROM0 0 1 2 [] None) \<and>
   \<not> (uint (org (Section ''A'' SECTTYPE_ROM0 0 0 2 [] None)) +
      uint (sect_size (Section ''A'' SECTTYPE_ROM0 0 0 2 [] None))
        \<le> uint (org (Section ''B'' SECTTYPE_ROM0 0 1 2 [] None)))"
  by (simp add: out_AddSection_def usual_firstBank_def maxNbBanks_def overlaps_def)

section \<open>Properties of the symbol file\<close>

subsection \<open>Evaluation\<close>

lemma replicate_num: "replicate (numeral k) x = x # replicate (pred_numeral k) x"
  by (simp add: numeral_eq_Suc)
lemma printSymName_numeral:
  "printSymName dec (numeral k) [] = Returns []"
  "printSymName dec (numeral k) (c # rest) =
     (if isLegalForSymName c then
        (case printSymName dec (pred_numeral k) rest of
           Returns out \<Rightarrow> Returns (c # out)
         | ReadsPastEnd \<Rightarrow> ReadsPastEnd
         | NoFuel \<Rightarrow> NoFuel
         | NotDefined \<Rightarrow> NotDefined)
      else
        (case decode_seq dec 0 0 (c # rest) of
           Returns (codepoint, ptr') \<Rightarrow>
             (case printSymName dec (pred_numeral k) ptr' of
                Returns out \<Rightarrow> Returns (escape codepoint @ out)
              | ReadsPastEnd \<Rightarrow> ReadsPastEnd
              | NoFuel \<Rightarrow> NoFuel
              | NotDefined \<Rightarrow> NotDefined)
         | ReadsPastEnd \<Rightarrow> ReadsPastEnd
         | NoFuel \<Rightarrow> NoFuel
         | NotDefined \<Rightarrow> NotDefined))"
  by (simp_all add: numeral_eq_Suc del: decode_seq.simps)
lemma printSymName_one:
  "printSymName dec 1 [] = Returns []"
  "printSymName dec 1 (c # rest) =
     (if isLegalForSymName c then
        (case printSymName dec 0 rest of
           Returns out \<Rightarrow> Returns (c # out)
         | ReadsPastEnd \<Rightarrow> ReadsPastEnd
         | NoFuel \<Rightarrow> NoFuel
         | NotDefined \<Rightarrow> NotDefined)
      else
        (case decode_seq dec 0 0 (c # rest) of
           Returns (codepoint, ptr') \<Rightarrow>
             (case printSymName dec 0 ptr' of
                Returns out \<Rightarrow> Returns (escape codepoint @ out)
              | ReadsPastEnd \<Rightarrow> ReadsPastEnd
              | NoFuel \<Rightarrow> NoFuel
              | NotDefined \<Rightarrow> NotDefined)
         | ReadsPastEnd \<Rightarrow> ReadsPastEnd
         | NoFuel \<Rightarrow> NoFuel
         | NotDefined \<Rightarrow> NotDefined))"
  by (simp_all del: decode_seq.simps)
lemma escape_space: "escape 0x20 = CHR 0x5C # ''u0020''"
  by (simp add: escape_def hex_padded_def hex.simps hex_digit_def replicate_num)
lemma escape_e_acute: "escape 0xE9 = CHR 0x5C # ''u00e9''"
  by (simp add: escape_def hex_padded_def hex.simps hex_digit_def replicate_num)
lemma escape_replacement: "escape 0xFFFD = CHR 0x5C # ''ufffd''"
  by (simp add: escape_def hex_padded_def hex.simps hex_digit_def replicate_num)
lemma escape_emoji: "escape 0x1F600 = CHR 0x5C # ''U0001f600''"
  by (simp add: escape_def hex_padded_def hex.simps hex_digit_def replicate_num)

text \<open>
  Names that \<open>printSymName\<close> gets through: a space is printed as its escape, a two-byte
  and a four-byte sequence as the escape of their code point, stray continuation bytes
  and a sequence cut short by the end of the name as U+FFFD.
\<close>

lemma printSymName_examples:
  "printSymName decode 4 ''A b'' = Returns (''A'' @ CHR 0x5C # ''u0020b'')"
  "printSymName decode 4 [CHR ''A'', CHR 0xC3, CHR 0xA9] = Returns (''A'' @ CHR 0x5C # ''u00e9'')"
  "printSymName decode 2 [CHR 0xF0, CHR 0x9F, CHR 0x98, CHR 0x80]
     = Returns (CHR 0x5C # ''U0001f600'')"
  "printSymName decode 4 [CHR ''A'', CHR 0x80, CHR 0x80, CHR ''b'']
     = Returns (''A'' @ CHR 0x5C # ''ufffdb'')"
  "printSymName decode 4 [CHR ''A'', CHR 0xC3] = Returns (''A'' @ CHR 0x5C # ''ufffd'')"
  by (simp_all add: isLegalForSymName_def decode_def byte_class_def transitions_def
        is_continuation_def printSymName_numeral printSymName_one escape_space escape_e_acute
        escape_replacement escape_emoji)

subsection \<open>A byte that is rejected at the start of a sequence\<close>

lemma decode_seq_stuck:
  assumes "fst (dec 0 0 (of_char c)) = 1" and "\<not> is_continuation c"
  shows "decode_seq dec 0 0 (c # rest) = Returns (0xFFFD, c # rest)"
  using assms by (cases "dec 0 0 (of_char c)") simp

lemma printSymName_stuck:
  assumes "\<not> isLegalForSymName c" and "fst (dec 0 0 (of_char c)) = 1"
    and "\<not> is_continuation c"
  shows "printSymName dec fuel (c # rest) = NoFuel"
proof (induction fuel)
  case 0
  show ?case by simp
next
  case (Suc fuel)
  show ?case
    using assms(1) Suc.IH decode_seq_stuck [where dec = dec and c = c and rest = rest, OF assms(2,3)]
    by (simp del: decode_seq.simps)
qed

lemma printSymName_stuck_later:
  assumes "\<not> isLegalForSymName c" and "fst (dec 0 0 (of_char c)) = 1"
    and "\<not> is_continuation c" and "list_all isLegalForSymName pre"
  shows "printSymName dec fuel (pre @ c # rest) = NoFuel"
  using assms(4)
proof (induction pre arbitrary: fuel)
  case Nil
  show ?case using printSymName_stuck [where dec = dec and c = c, OF assms(1-3)] by simp
next
  case (Cons p pre)
  show ?case
  proof (cases fuel)
    case 0
    then show ?thesis by simp
  next
    case (Suc n)
    then show ?thesis using Cons.prems Cons.IH [of n] by simp
  qed
qed

lemma byte_FF_rejected:
  "\<not> isLegalForSymName (CHR 0xFF)" "fst (decode 0 0 (of_char (CHR 0xFF))) = 1"
  "\<not> is_continuation (CHR 0xFF)"
  by (simp_all add: isLegalForSymName_def decode_def byte_class_def transitions_def
        is_continuation_def)


text \<open>
  C4 at the name \<open>A\<close> followed by the byte \<open>FF\<close>, which no UTF-8 sequence contains.
  The decoder rejects \<open>FF\<close> as the first byte of a sequence; \<open>FF\<close> is not a
  continuation byte, so the loop that skips continuation bytes does not move \<open>ptr\<close>, and
  the inner loop is left with U+FFFD to print and \<open>ptr\<close> still at \<open>FF\<close>.  The outer
  loop is then where it was: with any amount of fuel, \<open>printSymName\<close> does not return,
  nor does \<open>writeSymBank\<close> on a bank that holds a symbol of this name.
\<close>

theorem printSymName_invalid_lead_byte:
  "decode_seq decode 0 0 [CHR 0xFF] = Returns (0xFFFD, [CHR 0xFF]) \<and>
   (\<forall>fuel. printSymName decode fuel [CHR ''A'', CHR 0xFF] = NoFuel) \<and>
   (\<forall>fuel. writeSymBank decode fuel usual_firstBank
      \<lparr>sections = [Section ''S'' SECTTYPE_ROM0 0 0 1
                      [\<lparr>name = [CHR ''A'', CHR 0xFF], offset = 0\<rparr>] None],
       zeroLenSections = []\<rparr> SECTTYPE_ROM0 0 = NoFuel)"
proof -
  have one: "decode_seq decode 0 0 [CHR 0xFF] = Returns (0xFFFD, [CHR 0xFF])"
    by (rule decode_seq_stuck [where dec = decode, OF byte_FF_rejected(2,3)])
  have name: "printSymName decode fuel [CHR ''A'', CHR 0xFF] = NoFuel" for fuel
    using printSymName_stuck_later
            [where dec = decode and c = "CHR 0xFF" and pre = "''A''" and rest = "[]",
             OF byte_FF_rejected]
    by (simp add: isLegalForSymName_def)
  have bank: "writeSymBank decode fuel usual_firstBank
      \<lparr>sections = [Section ''S'' SECTTYPE_ROM0 0 0 1
                      [\<lparr>name = [CHR ''A'', CHR 0xFF], offset = 0\<rparr>] None],
       zeroLenSections = []\<rparr> SECTTYPE_ROM0 0 = NoFuel" for fuel
    by (simp add: writeSymBank_def forEachSortedSection_def symbols_of_def canStartSymName_def
          sort_symbols_def stable_sort_def strict_weak_ordering_def equivalent_def
          compareSymbols_def name del: printSymName.simps)
  show ?thesis using one name bank by blast
qed

text \<open>
  For comparison, a bank of ROMX (first bank 1) with the symbols \<open>b c\<close> at offset 5 and
  \<open>1x\<close>, whose first character is a digit, in a section at \<open>$4000\<close>: one line, for the
  first symbol.
\<close>

lemma writeSymBank_example:
  "writeSymBank decode 4 usual_firstBank
      \<lparr>sections = [Section ''S'' SECTTYPE_ROMX 1 0x4000 8
                      [\<lparr>name = ''b c'', offset = 5\<rparr>, \<lparr>name = ''1x'', offset = 6\<rparr>] None],
       zeroLenSections = []\<rparr> SECTTYPE_ROMX 0
   = Returns (''01:4005 b'' @ CHR 0x5C # ''u0020c'' @ [CHR 0x0A])"
proof -
  have n: "printSymName decode 4 ''b c'' = Returns (''b'' @ CHR 0x5C # ''u0020c'')"
    by (simp add: isLegalForSymName_def decode_def byte_class_def transitions_def
          printSymName_numeral printSymName_one escape_space)
  have h: "hex_padded 2 (Suc 0) = ''01''" "hex_padded 4 0x4005 = ''4005''"
    by (simp_all add: hex_padded_def hex.simps hex_digit_def replicate_num)
  show ?thesis
    by (simp add: writeSymBank_def forEachSortedSection_def symbols_of_def canStartSymName_def
          sort_symbols_def stable_sort_def strict_weak_ordering_def equivalent_def
          compareSymbols_def usual_firstBank_def n h del: printSymName.simps)
qed

subsection \<open>The order of the symbols\<close>

lemma insertion_ties:
  "\<forall>x \<in> set xs. \<forall>y \<in> set xs. \<not> before x y \<Longrightarrow> foldr (insert_stable before) xs [] = xs"
proof (induction xs)
  case Nil
  show ?case by simp
next
  case (Cons x xs)
  have "foldr (insert_stable before) (x # xs) [] = insert_stable before x xs"
    using Cons by simp
  also have "\<dots> = x # xs" using Cons.prems by (cases xs) auto
  finally show ?case .
qed

lemma strict_weak_ties:
  "\<forall>x \<in> set xs. \<forall>y \<in> set xs. \<not> before x y \<Longrightarrow> strict_weak_ordering before xs"
  by (simp add: strict_weak_ordering_def equivalent_def list_all_iff)

lemma stable_sort_ties:
  "\<forall>x \<in> set xs. \<forall>y \<in> set xs. \<not> before x y \<Longrightarrow> stable_sort before xs = Returns xs"
  by (simp add: stable_sort_def strict_weak_ties insertion_ties)

lemma compareSymbols_antisym: "compareSymbols a b = - compareSymbols b a"
  by (auto simp: compareSymbols_def Let_def starts_with_def char_at_def split: if_splits)

lemma compareSymbols_zero:
  "(compareSymbols a b = 0) = (addr a = addr b \<and> is_local a = is_local b)"
  by (auto simp: compareSymbols_def Let_def)

lemma compareSymbols_address: "addr a < addr b \<Longrightarrow> compareSymbols a b = - 1"
  by (auto simp: compareSymbols_def)

lemma compareSymbols_parent:
  assumes "addr a = addr b" and "\<not> is_local a"
    and "name (sym b) = name (sym a) @ CHR ''.'' # rest"
  shows "compareSymbols a b = - 1"
proof -
  have "is_local b" using assms(3) by (simp add: is_local_def)
  moreover have "starts_with (name (sym b)) (name (sym a))"
    using assms(3) by (simp add: starts_with_def)
  moreover have "char_at (name (sym b)) (length (name (sym a))) = CHR ''.''"
    using assms(3) by (simp add: char_at_def)
  ultimately show ?thesis
    using assms(1,2) by (simp add: compareSymbols_def Let_def)
qed

lemma child_name:
  assumes "starts_with n p" and "char_at n (length p) = CHR ''.''"
  shows "\<exists>r. n = p @ CHR ''.'' # r"
proof -
  have len: "length p < length n"
    using assms(2) by (auto simp: char_at_def split: if_splits)
  then have "n = take (length p) n @ n ! length p # drop (Suc (length p)) n"
    by (rule id_take_nth_drop)
  then have "n = p @ CHR ''.'' # drop (Suc (length p)) n"
    using assms len by (simp add: starts_with_def char_at_def)
  then show ?thesis by blast
qed

lemma compareSymbols_local:
  assumes "addr a = addr b" and "is_local a" and "\<not> is_local b"
    and "\<not> (\<exists>r. name (sym a) = name (sym b) @ CHR ''.'' # r)"
  shows "compareSymbols a b = - 1"
proof -
  have "\<not> (starts_with (name (sym a)) (name (sym b)) \<and>
           char_at (name (sym a)) (length (name (sym b))) = CHR ''.'')"
    using assms(4) child_name by blast
  then show ?thesis
    using assms(1-3) by (auto simp: compareSymbols_def Let_def)
qed

text \<open>
  With \<open>compareSymbols\<close> converted to \<open>bool\<close>, "before" holds in both directions or in
  none.  So the requirement of \<open>std::stable_sort\<close> is met exactly on the lists whose
  symbols all compare equal, and only there the sort of \<open>writeSymBank\<close> has a defined
  result.
\<close>

lemma sort_symbols_defined:
  "(sort_symbols xs \<noteq> NotDefined) = (\<forall>x \<in> set xs. \<forall>y \<in> set xs. compareSymbols x y = 0)"
proof
  assume "\<forall>x \<in> set xs. \<forall>y \<in> set xs. compareSymbols x y = 0"
  then have "sort_symbols xs = Returns xs"
    unfolding sort_symbols_def by (intro stable_sort_ties) simp
  then show "sort_symbols xs \<noteq> NotDefined" by simp
next
  assume "sort_symbols xs \<noteq> NotDefined"
  then have swo: "strict_weak_ordering (\<lambda>a b. compareSymbols a b \<noteq> 0) xs"
    by (simp add: sort_symbols_def stable_sort_def split: if_splits)
  show "\<forall>x \<in> set xs. \<forall>y \<in> set xs. compareSymbols x y = 0"
  proof (intro ballI)
    fix x y assume x: "x \<in> set xs" and y: "y \<in> set xs"
    have "list_all (\<lambda>x. list_all (\<lambda>y. list_all (\<lambda>z.
            if compareSymbols x y \<noteq> 0 \<and> compareSymbols y z \<noteq> 0
            then compareSymbols x z \<noteq> 0 else True) xs) xs) xs"
      using swo unfolding strict_weak_ordering_def by (elim conjE)
    then have "\<forall>x \<in> set xs. \<forall>y \<in> set xs. \<forall>z \<in> set xs.
            if compareSymbols x y \<noteq> 0 \<and> compareSymbols y z \<noteq> 0
            then compareSymbols x z \<noteq> 0 else True"
      unfolding list_all_iff .
    then have "if compareSymbols x y \<noteq> 0 \<and> compareSymbols y x \<noteq> 0
               then compareSymbols x x \<noteq> 0 else True"
      using x y by blast
    then have "compareSymbols x y \<noteq> 0 \<and> compareSymbols y x \<noteq> 0 \<longrightarrow> compareSymbols x x \<noteq> 0"
      by (simp split: if_splits)
    moreover have "compareSymbols x x = 0" by (simp add: compareSymbols_zero)
    moreover have "compareSymbols y x = - compareSymbols x y" by (rule compareSymbols_antisym)
    ultimately show "compareSymbols x y = 0" by auto
  qed
qed

text \<open>
  The comparison is not transitive: at one address, \<open>G1\<close> comes before its child
  \<open>G1.x\<close>, the local \<open>G1.x\<close> comes before the unrelated global \<open>G2\<close>, and the two
  globals \<open>G1\<close> and \<open>G2\<close> compare equal.
\<close>

lemma compareSymbols_not_transitive:
  "compareSymbols \<lparr>sym = \<lparr>name = ''G1'', offset = 0\<rparr>, addr = 0\<rparr>
                  \<lparr>sym = \<lparr>name = ''G1.x'', offset = 0\<rparr>, addr = 0\<rparr> = - 1"
  "compareSymbols \<lparr>sym = \<lparr>name = ''G1.x'', offset = 0\<rparr>, addr = 0\<rparr>
                  \<lparr>sym = \<lparr>name = ''G2'', offset = 0\<rparr>, addr = 0\<rparr> = - 1"
  "compareSymbols \<lparr>sym = \<lparr>name = ''G1'', offset = 0\<rparr>, addr = 0\<rparr>
                  \<lparr>sym = \<lparr>name = ''G2'', offset = 0\<rparr>, addr = 0\<rparr> = 0"
  by (simp_all add: compareSymbols_def is_local_def starts_with_def char_at_def)

text \<open>
  C3, as the code has it. The ordering predicate of the symbol file is a three-way
  comparison, and what follows is about the value it returns, - 1 meaning that its first
  argument is the earlier one.  It is antisymmetric: swapping the arguments negates the
  value.  It returns - 1 when the first symbol has the lower address; at one address, when
  the first is a global and the second one of its own children (its name, a dot, and
  more); and at one address, when the first is a local and the second a global that is
  not its parent.  It returns 0 exactly for two symbols of one address that are both
  local or both global, so it is not a total order.  \<open>std::stable_sort\<close> keeps symbols that
  compare equal in their order of input: for every list of symbols that all compare equal
  to one another, sorting yields the list as it is, and sorting the reversed list yields
  the reversed list.
\<close>

theorem compareSymbols_order:
  "compareSymbols a b = - compareSymbols b a \<and>
   (addr a < addr b \<longrightarrow> compareSymbols a b = - 1) \<and>
   (addr a = addr b \<and> \<not> is_local a \<and> name (sym b) = name (sym a) @ CHR ''.'' # rest
      \<longrightarrow> compareSymbols a b = - 1) \<and>
   (addr a = addr b \<and> is_local a \<and> \<not> is_local b \<and>
    \<not> (\<exists>r. name (sym a) = name (sym b) @ CHR ''.'' # r)
      \<longrightarrow> compareSymbols a b = - 1) \<and>
   (compareSymbols a b = 0) = (addr a = addr b \<and> is_local a = is_local b) \<and>
   ((\<forall>x \<in> set xs. \<forall>y \<in> set xs. compareSymbols x y = 0) \<longrightarrow>
      sort_symbols xs = Returns xs \<and> sort_symbols (rev xs) = Returns (rev xs))"
proof -
  have ties: "sort_symbols xs = Returns xs \<and> sort_symbols (rev xs) = Returns (rev xs)"
    if "\<forall>x \<in> set xs. \<forall>y \<in> set xs. compareSymbols x y = 0"
  proof -
    have "sort_symbols xs = Returns xs"
      unfolding sort_symbols_def using that by (intro stable_sort_ties) simp
    moreover have "sort_symbols (rev xs) = Returns (rev xs)"
      unfolding sort_symbols_def using that by (intro stable_sort_ties) simp
    ultimately show ?thesis by simp
  qed
  have c2: "addr a < addr b \<longrightarrow> compareSymbols a b = - 1"
    using compareSymbols_address [of a b] by (rule impI)
  have c3: "addr a = addr b \<and> \<not> is_local a \<and>
            name (sym b) = name (sym a) @ CHR ''.'' # rest \<longrightarrow> compareSymbols a b = - 1"
  proof
    assume h: "addr a = addr b \<and> \<not> is_local a \<and>
               name (sym b) = name (sym a) @ CHR ''.'' # rest"
    show "compareSymbols a b = - 1"
      by (rule compareSymbols_parent [of a b rest]) (use h in simp_all)
  qed
  have c4: "addr a = addr b \<and> is_local a \<and> \<not> is_local b \<and>
            \<not> (\<exists>r. name (sym a) = name (sym b) @ CHR ''.'' # r)
              \<longrightarrow> compareSymbols a b = - 1"
  proof
    assume h: "addr a = addr b \<and> is_local a \<and> \<not> is_local b \<and>
               \<not> (\<exists>r. name (sym a) = name (sym b) @ CHR ''.'' # r)"
    show "compareSymbols a b = - 1"
      by (rule compareSymbols_local [of a b]) (use h in simp_all)
  qed
  have c6: "(\<forall>x \<in> set xs. \<forall>y \<in> set xs. compareSymbols x y = 0) \<longrightarrow>
      sort_symbols xs = Returns xs \<and> sort_symbols (rev xs) = Returns (rev xs)"
    using ties by (rule impI)
  show ?thesis
    by (intro conjI compareSymbols_antisym compareSymbols_zero c2 c3 c4 c6)
qed

text \<open>
  A symbol at address 0 against one at address 1; the global \<open>G1\<close> against its child
  \<open>G1.x\<close>; the local \<open>G1.x\<close> against the unrelated global \<open>G2\<close>; and the two globals
  \<open>A\<close> and \<open>B\<close> at address 0, which tie and stay as they were given, in either order.
\<close>

theorem compareSymbols_order_witness:
  "compareSymbols \<lparr>sym = \<lparr>name = ''A'', offset = 0\<rparr>, addr = 0\<rparr>
                  \<lparr>sym = \<lparr>name = ''B'', offset = 1\<rparr>, addr = 1\<rparr> = - 1 \<and>
   compareSymbols \<lparr>sym = \<lparr>name = ''B'', offset = 1\<rparr>, addr = 1\<rparr>
                  \<lparr>sym = \<lparr>name = ''A'', offset = 0\<rparr>, addr = 0\<rparr> = 1 \<and>
   compareSymbols \<lparr>sym = \<lparr>name = ''G1'', offset = 0\<rparr>, addr = 0\<rparr>
                  \<lparr>sym = \<lparr>name = ''G1.x'', offset = 0\<rparr>, addr = 0\<rparr> = - 1 \<and>
   compareSymbols \<lparr>sym = \<lparr>name = ''G1.x'', offset = 0\<rparr>, addr = 0\<rparr>
                  \<lparr>sym = \<lparr>name = ''G2'', offset = 0\<rparr>, addr = 0\<rparr> = - 1 \<and>
   compareSymbols \<lparr>sym = \<lparr>name = ''A'', offset = 0\<rparr>, addr = 0\<rparr>
                  \<lparr>sym = \<lparr>name = ''B'', offset = 0\<rparr>, addr = 0\<rparr> = 0 \<and>
   sort_symbols [\<lparr>sym = \<lparr>name = ''A'', offset = 0\<rparr>, addr = 0\<rparr>,
                 \<lparr>sym = \<lparr>name = ''B'', offset = 0\<rparr>, addr = 0\<rparr>]
     = Returns [\<lparr>sym = \<lparr>name = ''A'', offset = 0\<rparr>, addr = 0\<rparr>,
                \<lparr>sym = \<lparr>name = ''B'', offset = 0\<rparr>, addr = 0\<rparr>] \<and>
   sort_symbols (rev [\<lparr>sym = \<lparr>name = ''A'', offset = 0\<rparr>, addr = 0\<rparr>,
                      \<lparr>sym = \<lparr>name = ''B'', offset = 0\<rparr>, addr = 0\<rparr>])
     = Returns [\<lparr>sym = \<lparr>name = ''B'', offset = 0\<rparr>, addr = 0\<rparr>,
                \<lparr>sym = \<lparr>name = ''A'', offset = 0\<rparr>, addr = 0\<rparr>]"
proof -
  let ?A = "\<lparr>sym = \<lparr>name = ''A'', offset = 0\<rparr>, addr = 0\<rparr>"
  let ?B = "\<lparr>sym = \<lparr>name = ''B'', offset = 0\<rparr>, addr = 0\<rparr>"
  let ?B1 = "\<lparr>sym = \<lparr>name = ''B'', offset = 1\<rparr>, addr = 1\<rparr>"
  let ?G1 = "\<lparr>sym = \<lparr>name = ''G1'', offset = 0\<rparr>, addr = 0\<rparr>"
  let ?G1x = "\<lparr>sym = \<lparr>name = ''G1.x'', offset = 0\<rparr>, addr = 0\<rparr>"
  let ?G2 = "\<lparr>sym = \<lparr>name = ''G2'', offset = 0\<rparr>, addr = 0\<rparr>"
  have less: "addr ?A < addr ?B1" by simp
  have parent: "addr ?G1 = addr ?G1x \<and> \<not> is_local ?G1 \<and>
                name (sym ?G1x) = name (sym ?G1) @ CHR ''.'' # ''x''"
    by (simp add: is_local_def)
  have unrelated: "addr ?G1x = addr ?G2 \<and> is_local ?G1x \<and> \<not> is_local ?G2 \<and>
                   \<not> (\<exists>r. name (sym ?G1x) = name (sym ?G2) @ CHR ''.'' # r)"
    by (simp add: is_local_def)
  have same: "addr ?A = addr ?B \<and> is_local ?A = is_local ?B"
    by (simp add: is_local_def)
  have t1: "compareSymbols ?A ?B1 = - 1" "compareSymbols ?B1 ?A = 1"
    using compareSymbols_order [of ?A ?B1 "[]" "[]"] compareSymbols_order [of ?B1 ?A "[]" "[]"]
      less by simp_all
  have t2: "compareSymbols ?G1 ?G1x = - 1"
    using compareSymbols_order [of ?G1 ?G1x "''x''" "[]"] parent by blast
  have t3: "compareSymbols ?G1x ?G2 = - 1"
    using compareSymbols_order [of ?G1x ?G2 "[]" "[]"] unrelated by blast
  have t4: "compareSymbols ?A ?B = 0" "compareSymbols ?B ?A = 0"
    "compareSymbols ?A ?A = 0" "compareSymbols ?B ?B = 0"
    using compareSymbols_order [of ?A ?B "[]" "[]"] compareSymbols_order [of ?B ?A "[]" "[]"]
      compareSymbols_order [of ?A ?A "[]" "[]"] compareSymbols_order [of ?B ?B "[]" "[]"]
      same by simp_all
  have all: "\<forall>x \<in> set [?A, ?B]. \<forall>y \<in> set [?A, ?B]. compareSymbols x y = 0"
    using t4 by simp
  have t5: "sort_symbols [?A, ?B] = Returns [?A, ?B]"
    "sort_symbols (rev [?A, ?B]) = Returns (rev [?A, ?B])"
    using compareSymbols_order [of ?A ?B "[]" "[?A, ?B]"] all by blast+
  show ?thesis using t1 t2 t3 t4(1) t5 by simp
qed

text \<open>
  C3, as the specification words it, fails: the two globals \<open>A\<close> and \<open>B\<close> at address 0
  compare equal, in both directions, so the sort leaves them in their order of input, and
  sorting the reversed list does not yield what sorting the list yields.
\<close>

theorem sort_symbols_counterexample:
  "compareSymbols \<lparr>sym = \<lparr>name = ''A'', offset = 0\<rparr>, addr = 0\<rparr>
                  \<lparr>sym = \<lparr>name = ''B'', offset = 0\<rparr>, addr = 0\<rparr> = 0 \<and>
   compareSymbols \<lparr>sym = \<lparr>name = ''B'', offset = 0\<rparr>, addr = 0\<rparr>
                  \<lparr>sym = \<lparr>name = ''A'', offset = 0\<rparr>, addr = 0\<rparr> = 0 \<and>
   sort_symbols [\<lparr>sym = \<lparr>name = ''A'', offset = 0\<rparr>, addr = 0\<rparr>,
                 \<lparr>sym = \<lparr>name = ''B'', offset = 0\<rparr>, addr = 0\<rparr>]
     = Returns [\<lparr>sym = \<lparr>name = ''A'', offset = 0\<rparr>, addr = 0\<rparr>,
                \<lparr>sym = \<lparr>name = ''B'', offset = 0\<rparr>, addr = 0\<rparr>] \<and>
   sort_symbols (rev [\<lparr>sym = \<lparr>name = ''A'', offset = 0\<rparr>, addr = 0\<rparr>,
                      \<lparr>sym = \<lparr>name = ''B'', offset = 0\<rparr>, addr = 0\<rparr>])
     = Returns [\<lparr>sym = \<lparr>name = ''B'', offset = 0\<rparr>, addr = 0\<rparr>,
                \<lparr>sym = \<lparr>name = ''A'', offset = 0\<rparr>, addr = 0\<rparr>] \<and>
   sort_symbols (rev [\<lparr>sym = \<lparr>name = ''A'', offset = 0\<rparr>, addr = 0\<rparr>,
                      \<lparr>sym = \<lparr>name = ''B'', offset = 0\<rparr>, addr = 0\<rparr>])
     \<noteq> sort_symbols [\<lparr>sym = \<lparr>name = ''A'', offset = 0\<rparr>, addr = 0\<rparr>,
                      \<lparr>sym = \<lparr>name = ''B'', offset = 0\<rparr>, addr = 0\<rparr>]"
  by (simp add: sort_symbols_def stable_sort_def strict_weak_ordering_def equivalent_def
        compareSymbols_def is_local_def)

end
